theory Spec2Isabelle
  imports Main
begin

section \<open>The inner editor of a hosted node (renderer-preset/inner-editor.ts)\<close>

text \<open>
  The file embeds an independent editor (the inner view) inside one node of the outer
  document. Its own code is the closure state of \<open>createInnerEditor\<close>
  (\<open>isEditing\<close>, \<open>innerView\<close>), the \<open>dispatchTransaction\<close> callback of the
  inner view, and the renderer callbacks \<open>onUpdate\<close>, \<open>onFocus\<close>, \<open>onBlur\<close>,
  \<open>onDestroy\<close>. Everything else it calls belongs to the editing framework
  (\<open>@milkdown/prose\<close>), which is not part of the sources: the framework's text-level
  primitives are modelled below from the specification, and the primitives that act on
  the outer document are parameters (the record \<open>prose\<close>).

  The hosted node holds text only (its canonical value is the text of its first child), so
  a node's content is a \<open>string\<close>: the empty string is the empty fragment, any other
  string is the single text child. Positions are JavaScript numbers, modelled as \<open>int\<close>.
  Selections, the input focus of the outer view, the key bindings of the inner view and
  \<open>stopEvent\<close> are not modelled: no property below reads them. The outer view calls
  \<open>onUpdate\<close> back when its document changes; that wiring belongs to the host, so
  \<open>onUpdate\<close> is a callback of its own here.
\<close>

subsection \<open>Data\<close>

record pm_node =
  attrs_value :: string
  content :: string

datatype step = ReplaceStep (step_from: int) (step_to: int) (step_slice: string)

datatype stepmap = StepMap_offset int

datatype error = StepDiscarded | TransformError | RangeError | MismatchedTransaction

text \<open>
  A transaction: the document it was created on, the document after its steps, the steps,
  and the metadata (a dictionary from keys to values; the only values this file stores
  are booleans).
\<close>

record 'd transaction =
  tr_before :: 'd
  tr_doc :: 'd
  tr_steps :: "step list"
  tr_meta :: "string \<rightharpoonup> bool"

record editor_state =
  doc :: string

text \<open>
  An inner \<open>EditorView\<close> instance. \<open>view_id\<close> is the identity of the object,
  \<open>iv_received\<close> records every transaction handed to its \<open>dispatch\<close>, in order.
\<close>

record inner_view =
  view_id :: nat
  iv_state :: editor_state
  iv_focused :: bool
  iv_received :: "string transaction list"

text \<open>
  The outer view: its document, its \<open>editable\<close> flag, and the transactions dispatched
  to it, in order.
\<close>

record 'd outer_view =
  o_doc :: 'd
  o_editable :: bool
  o_dispatched :: "'d transaction list"

text \<open>
  The framework primitives on the outer document, which the file only calls:
  \<open>step.map(offsetMap)\<close> (\<open>None\<close> is JavaScript's \<open>null\<close>), the application of a
  step to the outer document inside \<open>outerTr.step\<close> (\<open>None\<close>: the step does not
  apply and \<open>step\<close> throws), and the getter \<open>outerTr.docChanged\<close>.
\<close>

record 'd prose =
  step_map :: "stepmap \<Rightarrow> step \<Rightarrow> step option"
  step_apply :: "'d \<Rightarrow> step \<Rightarrow> 'd option"
  docChanged :: "'d transaction \<Rightarrow> bool"

text \<open>The three class names \<open>getStyle\<close> returns.\<close>

record styles =
  codeStyle :: string
  hideCodeStyle :: string
  previewPanelStyle :: string

text \<open>
  The state one renderer instance closes over: the outer view, the two variables of
  \<open>createInnerEditor\<close>, the store of inner view instances (\<open>fresh_id\<close> is the next
  identity, \<open>live_views\<close> the instances constructed and not destroyed), the three DOM
  elements (class lists, \<open>dataset.value\<close> of the editor element, whether each element is
  still attached to a parent), and the texts handed to \<open>render\<close>, in order.
\<close>

record 'd renderer =
  outerView :: "'d outer_view"
  isEditing :: bool
  innerView :: "inner_view option"
  fresh_id :: nat
  live_views :: "nat list"
  editor_classes :: "string list"
  dom_classes :: "string list"
  preview_classes :: "string list"
  editor_value :: "string option"
  dom_attached :: bool
  editor_attached :: bool
  preview_attached :: bool
  rendered :: "string list"

type_synonym 'd outcome = "error option \<times> 'd renderer"

subsection \<open>Framework primitives on text content\<close>

text \<open>
  Modelled from the spec: the scanning loop of the framework's \<open>findDiffStart\<close> and
  \<open>findDiffEnd\<close> on two texts (DiffReconciler, steps 1 and 2), which counts from
  \<open>pos\<close> while the two texts agree.
\<close>

fun diff_scan :: "string \<Rightarrow> string \<Rightarrow> int \<Rightarrow> int" where
  "diff_scan (x # xs) (y # ys) pos = (if x = y then diff_scan xs ys (pos + 1) else pos)"
| "diff_scan _ _ pos = pos"

text \<open>
  Modelled from the spec: \<open>Fragment.findDiffStart\<close> of the framework, on text content
  (DiffReconciler, step 1: scan from the front; the start is the first index at which the
  two sequences diverge, or null if they are identical).
\<close>

definition findDiffStart :: "string \<Rightarrow> string \<Rightarrow> int option" where
  "findDiffStart a b = (if a = b then None else Some (diff_scan a b 0))"

text \<open>
  Modelled from the spec: \<open>Fragment.findDiffEnd\<close> of the framework, on text content
  (DiffReconciler, step 2: scan from the back; the result is the last matching suffix
  boundary in each sequence, or null if they are identical).
\<close>

definition findDiffEnd :: "string \<Rightarrow> string \<Rightarrow> (int \<times> int) option" where
  "findDiffEnd a b =
     (if a = b then None
      else let same = diff_scan (rev a) (rev b) 0
           in Some (int (length a) - same, int (length b) - same))"

text \<open>
  Modelled from the spec: \<open>Node.slice\<close> of the framework, on text content (the content's
  slice between two positions). A position outside the content is a range error.
\<close>

definition node_slice :: "pm_node \<Rightarrow> int \<Rightarrow> int \<Rightarrow> error + string" where
  "node_slice node from to =
     (let size = int (length (content node))
      in if 0 \<le> from \<and> from \<le> size \<and> 0 \<le> to \<and> to \<le> size
         then Inr (take (nat (to - from)) (drop (nat from) (content node)))
         else Inl RangeError)"

text \<open>
  Modelled from the spec: a Step on text content (an atomic, position-addressed replacement
  of a range) and its application to a text document.
\<close>

fun step_apply_text :: "string \<Rightarrow> step \<Rightarrow> string option" where
  "step_apply_text d (ReplaceStep from to slice) =
     (if 0 \<le> from \<and> from \<le> to \<and> to \<le> int (length d)
      then Some (take (nat from) d @ slice @ drop (nat to) d)
      else None)"

text \<open>
  Modelled from the spec: \<open>state.tr\<close> of the framework, the transaction with no steps
  and no metadata on the current document.
\<close>

definition state_tr :: "'d \<Rightarrow> 'd transaction" where
  "state_tr d = \<lparr>tr_before = d, tr_doc = d, tr_steps = [], tr_meta = Map.empty\<rparr>"

text \<open>
  Modelled from the spec: \<open>tr.step(step)\<close> of the framework. It applies the step to the
  transaction's document and records it, and throws when the step does not apply; \<open>app\<close>
  is the application of a step to a document.
\<close>

definition tr_step ::
  "('d \<Rightarrow> step \<Rightarrow> 'd option) \<Rightarrow> 'd transaction \<Rightarrow> step \<Rightarrow> error + 'd transaction" where
  "tr_step app tr st =
     (case app (tr_doc tr) st of
        None \<Rightarrow> Inl TransformError
      | Some d \<Rightarrow> Inr (tr\<lparr>tr_doc := d, tr_steps := tr_steps tr @ [st]\<rparr>))"

text \<open>
  Modelled from the spec: \<open>tr.replace(from, to, slice)\<close> of the framework, on text. No
  step is recorded when the range and the slice are both empty; a range outside the
  document is a range error.
\<close>

definition tr_replace ::
  "int \<Rightarrow> int \<Rightarrow> string \<Rightarrow> string transaction \<Rightarrow> error + string transaction" where
  "tr_replace from to slice tr =
     (if from = to \<and> slice = [] then Inr tr
      else if \<not> (0 \<le> from \<and> from \<le> to \<and> to \<le> int (length (tr_doc tr)))
      then Inl RangeError
      else tr_step step_apply_text tr (ReplaceStep from to slice))"

text \<open>
  Modelled from the spec: \<open>tr.setMeta(key, value)\<close> of the framework, which stores a
  metadata tag.
\<close>

definition setMeta :: "string \<Rightarrow> bool \<Rightarrow> 'd transaction \<Rightarrow> 'd transaction" where
  "setMeta key v tr = tr\<lparr>tr_meta := (tr_meta tr)(key \<mapsto> v)\<rparr>"

text \<open>
  Modelled from the spec: \<open>tr.getMeta(key)\<close> of the framework, as the source tests it:
  the truthiness of the stored value (a key that was never set reads as undefined).
\<close>

definition getMeta :: "'d transaction \<Rightarrow> string \<Rightarrow> bool" where
  "getMeta tr key = (tr_meta tr key = Some True)"

text \<open>
  Modelled from the spec: \<open>EditorState.applyTransaction\<close> of the framework, for a state
  whose plugins neither filter nor append transactions (the inner state has the keymap
  only). Applying a transaction either fully succeeds or is rejected: a transaction
  created on another document is rejected, otherwise the new state holds the
  transaction's document and the applied transactions are the transaction alone.
\<close>

definition applyTransaction ::
  "editor_state \<Rightarrow> string transaction \<Rightarrow> error + (editor_state \<times> string transaction list)" where
  "applyTransaction st tr =
     (if tr_before tr = doc st then Inr (st\<lparr>doc := tr_doc tr\<rparr>, [tr])
      else Inl MismatchedTransaction)"

text \<open>
  Modelled from the spec: \<open>outerView.dispatch\<close> of the framework (dispatch updates the
  document state): the outer document becomes the transaction's document.
\<close>

definition outer_dispatch :: "'d transaction \<Rightarrow> 'd outer_view \<Rightarrow> 'd outer_view" where
  "outer_dispatch tr ov = ov\<lparr>o_doc := tr_doc tr, o_dispatched := o_dispatched ov @ [tr]\<rparr>"

text \<open>
  Modelled from the spec: OffsetMapper, the mapping of a step through a constant offset
  (a step in inner coordinates re-expressed in outer coordinates).
\<close>

fun offset_step :: "stepmap \<Rightarrow> step \<Rightarrow> step option" where
  "offset_step (StepMap_offset n) (ReplaceStep from to slice) =
     Some (ReplaceStep (from + n) (to + n) slice)"

text \<open>
  \<open>classList.add\<close> and \<open>classList.remove\<close> of a DOM element: a class list holds a
  name at most once.
\<close>

definition classList_add :: "string \<Rightarrow> string list \<Rightarrow> string list" where
  "classList_add c cs = (if c \<in> set cs then cs else cs @ [c])"

definition classList_remove :: "string \<Rightarrow> string list \<Rightarrow> string list" where
  "classList_remove c cs = removeAll c cs"

subsection \<open>createInnerEditor\<close>

text \<open>
  The two nested \<open>forEach\<close> loops of \<open>dispatchTransaction\<close> (lines 100 to 110): every
  step of every applied transaction is mapped through the offset map; a step whose
  mapping is null throws \<open>step discarded!\<close>, a mapped step is added to the outer
  transaction.
\<close>

fun forward_steps ::
  "'d prose \<Rightarrow> stepmap \<Rightarrow> step list \<Rightarrow> 'd transaction \<Rightarrow> error + 'd transaction" where
  "forward_steps P offsetMap [] outerTr = Inr outerTr"
| "forward_steps P offsetMap (st # sts) outerTr =
     (case step_map P offsetMap st of
        None \<Rightarrow> Inl StepDiscarded
      | Some mapped \<Rightarrow>
          (case tr_step (step_apply P) outerTr mapped of
             Inl e \<Rightarrow> Inl e
           | Inr outerTr' \<Rightarrow> forward_steps P offsetMap sts outerTr'))"

fun forward_transactions ::
  "'d prose \<Rightarrow> stepmap \<Rightarrow> string transaction list \<Rightarrow> 'd transaction \<Rightarrow> error + 'd transaction"
  where
  "forward_transactions P offsetMap [] outerTr = Inr outerTr"
| "forward_transactions P offsetMap (t # ts) outerTr =
     (case forward_steps P offsetMap (tr_steps t) outerTr of
        Inl e \<Rightarrow> Inl e
      | Inr outerTr' \<Rightarrow> forward_transactions P offsetMap ts outerTr')"

text \<open>
  \<open>dispatchTransaction\<close> (lines 91 to 113). \<open>getPos\<close> is the position accessor the host
  passes in; it reads the outer view. A thrown error leaves the assignments made before
  it in place, so the outcome holds the error and the state reached.
\<close>

definition dispatchTransaction ::
  "'d prose \<Rightarrow> ('d outer_view \<Rightarrow> int) \<Rightarrow> string transaction \<Rightarrow> 'd renderer \<Rightarrow> 'd outcome" where
  "dispatchTransaction P getPos tr w =
     (case innerView w of
        None \<Rightarrow> (None, w)
      | Some iv \<Rightarrow>
          (case applyTransaction (iv_state iv) tr of
             Inl e \<Rightarrow> (Some e, w)
           | Inr (state, transactions) \<Rightarrow>
               (let w1 = w\<lparr>innerView := Some (iv\<lparr>iv_state := state\<rparr>)\<rparr>
                in if \<not> getMeta tr ''fromOutside'' then
                     (let outerTr = state_tr (o_doc (outerView w1));
                          offsetMap = StepMap_offset (getPos (outerView w1) + 1)
                      in case forward_transactions P offsetMap transactions outerTr of
                           Inl e \<Rightarrow> (Some e, w1)
                         | Inr outerTr' \<Rightarrow>
                             if docChanged P outerTr'
                             then (None, w1\<lparr>outerView := outer_dispatch outerTr' (outerView w1)\<rparr>)
                             else (None, w1))
                   else (None, w1))))"

text \<open>
  \<open>innerView.dispatch(tr)\<close>: the view records the transaction and calls its
  \<open>dispatchTransaction\<close> callback.
\<close>

definition view_dispatch ::
  "'d prose \<Rightarrow> ('d outer_view \<Rightarrow> int) \<Rightarrow> string transaction \<Rightarrow> 'd renderer \<Rightarrow> 'd outcome" where
  "view_dispatch P getPos tr w =
     (case innerView w of
        None \<Rightarrow> (None, w)
      | Some iv \<Rightarrow>
          dispatchTransaction P getPos tr
            (w\<lparr>innerView := Some (iv\<lparr>iv_received := iv_received iv @ [tr]\<rparr>)\<rparr>))"

text \<open>
  \<open>openEditor\<close> (lines 64 to 119): constructs a new inner view on the node, focuses it,
  dispatches the transaction that sets the selection to the document start (a
  transaction with no steps), and sets \<open>isEditing\<close>.
\<close>

definition openEditor ::
  "'d prose \<Rightarrow> ('d outer_view \<Rightarrow> int) \<Rightarrow> pm_node \<Rightarrow> 'd renderer \<Rightarrow> 'd outcome" where
  "openEditor P getPos node w =
     (let iv = \<lparr>view_id = fresh_id w, iv_state = \<lparr>doc = content node\<rparr>,
                iv_focused = False, iv_received = []\<rparr>;
          w1 = w\<lparr>innerView := Some iv, fresh_id := fresh_id w + 1,
                 live_views := live_views w @ [fresh_id w]\<rparr>;
          w2 = w1\<lparr>innerView := Some (iv\<lparr>iv_focused := True\<rparr>)\<rparr>
      in case view_dispatch P getPos (state_tr (content node)) w2 of
           (Some e, w3) \<Rightarrow> (Some e, w3)
         | (None, w3) \<Rightarrow> (None, w3\<lparr>isEditing := True\<rparr>))"

text \<open>\<open>closeEditor\<close> (lines 121 to 127).\<close>

definition closeEditor :: "'d renderer \<Rightarrow> 'd renderer" where
  "closeEditor w =
     (let w1 = (case innerView w of
                  Some iv \<Rightarrow> w\<lparr>live_views := removeAll (view_id iv) (live_views w)\<rparr>
                | None \<Rightarrow> w)
      in w1\<lparr>innerView := None, isEditing := False\<rparr>)"

subsection \<open>The renderer callbacks\<close>

text \<open>
  The state the renderer starts in (lines 140 to 154): no session, the editor element
  hidden and appended to \<open>dom\<close>.
\<close>

definition innerEditor :: "styles \<Rightarrow> 'd outer_view \<Rightarrow> 'd renderer" where
  "innerEditor sty view =
     \<lparr>outerView = view, isEditing = False, innerView = None, fresh_id = 0, live_views = [],
      editor_classes =
        (if codeStyle sty \<noteq> [] \<and> hideCodeStyle sty \<noteq> []
         then classList_add (hideCodeStyle sty) (classList_add (codeStyle sty) [])
         else []),
      dom_classes = classList_add ''math-block'' [],
      preview_classes =
        (if previewPanelStyle sty \<noteq> [] then classList_add (previewPanelStyle sty) [] else []),
      editor_value = None,
      dom_attached = False, editor_attached = True, preview_attached = False,
      rendered = []\<rparr>"

text \<open>
  The overlap adjustment of \<open>onUpdate\<close> (lines 174 to 179), and the patch it builds
  (lines 170 to 182): the transaction that replaces \<open>[start, endB)\<close> of the inner
  document by the node's slice \<open>[start, endA)\<close>, tagged \<open>fromOutside\<close>. \<open>None\<close>
  means that no patch is built.
\<close>

definition adjust_ends :: "int \<Rightarrow> int \<times> int \<Rightarrow> int \<times> int" where
  "adjust_ends start diff =
     (let endA = fst diff; endB = snd diff;
          overlap = start - min endA endB
      in if overlap > 0 then (endA + overlap, endB + overlap) else (endA, endB))"

definition build_patch :: "pm_node \<Rightarrow> editor_state \<Rightarrow> (error + string transaction) option" where
  "build_patch node state =
     (case findDiffStart (content node) (doc state) of
        None \<Rightarrow> None
      | Some start \<Rightarrow>
          (case findDiffEnd (content node) (doc state) of
             None \<Rightarrow> None
           | Some diff \<Rightarrow>
               (let (endA, endB) = adjust_ends start diff
                in Some (case node_slice node start endA of
                           Inl e \<Rightarrow> Inl e
                         | Inr slice \<Rightarrow>
                             (case tr_replace start endB slice (state_tr (doc state)) of
                                Inl e \<Rightarrow> Inl e
                              | Inr tr \<Rightarrow> Inr (setMeta ''fromOutside'' True tr))))))"

text \<open>\<open>onUpdate\<close> (lines 160 to 191).\<close>

definition onUpdate ::
  "'d prose \<Rightarrow> ('d outer_view \<Rightarrow> int) \<Rightarrow> pm_node \<Rightarrow> bool \<Rightarrow> 'd renderer \<Rightarrow> 'd outcome" where
  "onUpdate P getPos node isInit w =
     (if isInit
      then (None, w\<lparr>editor_value := Some (attrs_value node),
                    rendered := rendered w @ [attrs_value node]\<rparr>)
      else
        (let r = (case innerView w of
                    None \<Rightarrow> (None, w)
                  | Some iv \<Rightarrow>
                      (case build_patch node (iv_state iv) of
                         None \<Rightarrow> (None, w)
                       | Some (Inl e) \<Rightarrow> (Some e, w)
                       | Some (Inr tr) \<Rightarrow> view_dispatch P getPos tr w))
         in case r of
              (Some e, w1) \<Rightarrow> (Some e, w1)
            | (None, w1) \<Rightarrow>
                (let newVal = content node
                 in (None, w1\<lparr>editor_value := Some newVal,
                              rendered := rendered w1 @ [newVal]\<rparr>))))"

text \<open>\<open>onFocus\<close> (lines 192 to 199).\<close>

definition onFocus ::
  "'d prose \<Rightarrow> ('d outer_view \<Rightarrow> int) \<Rightarrow> styles \<Rightarrow> pm_node \<Rightarrow> 'd renderer \<Rightarrow> 'd outcome" where
  "onFocus P getPos sty node w =
     (if \<not> o_editable (outerView w) then (None, w)
      else
        (let w1 = (if hideCodeStyle sty \<noteq> []
                   then w\<lparr>editor_classes := classList_remove (hideCodeStyle sty) (editor_classes w)\<rparr>
                   else w)
         in case openEditor P getPos node w1 of
              (Some e, w2) \<Rightarrow> (Some e, w2)
            | (None, w2) \<Rightarrow>
                (None, w2\<lparr>dom_classes := classList_add ''ProseMirror-selectednode'' (dom_classes w2)\<rparr>)))"

text \<open>\<open>onBlur\<close> (lines 200 to 206).\<close>

definition onBlur :: "styles \<Rightarrow> 'd renderer \<Rightarrow> 'd renderer" where
  "onBlur sty w =
     (let w1 = (if hideCodeStyle sty \<noteq> []
                then w\<lparr>editor_classes := classList_add (hideCodeStyle sty) (editor_classes w)\<rparr>
                else w);
          w2 = closeEditor w1
      in w2\<lparr>dom_classes := classList_remove ''ProseMirror-selectednode'' (dom_classes w2)\<rparr>)"

text \<open>\<open>onDestroy\<close> (lines 207 to 211).\<close>

definition onDestroy :: "'d renderer \<Rightarrow> 'd renderer" where
  "onDestroy w = w\<lparr>preview_attached := False, editor_attached := False, dom_attached := False\<rparr>"

subsection \<open>A framework instance and a hosted node to run the callbacks on\<close>

text \<open>
  The outer document of the instance is flat text in which \<open>[\<close> and \<open>]\<close> stand for
  the opening and closing tokens of the hosted node: steps are mapped by
  \<open>offset_step\<close> and applied as text replacements, a transaction has changed the
  document when it holds a step, and the position accessor finds the opening token in the
  current outer document.
\<close>

definition text_prose :: "string prose" where
  "text_prose =
     \<lparr>step_map = offset_step, step_apply = step_apply_text,
      docChanged = (\<lambda>tr. tr_steps tr \<noteq> [])\<rparr>"

definition bracket_pos :: "string outer_view \<Rightarrow> int" where
  "bracket_pos ov = int (length (takeWhile (\<lambda>c. c \<noteq> CHR ''['') (o_doc ov)))"

definition example_styles :: styles where
  "example_styles = \<lparr>codeStyle = ''code'', hideCodeStyle = ''hide'', previewPanelStyle = ''panel''\<rparr>"

definition example_node :: pm_node where
  "example_node = \<lparr>attrs_value = ''x = 1'', content = ''x = 1''\<rparr>"

definition example_view :: "string outer_view" where
  "example_view = \<lparr>o_doc = ''ab[x = 1]cd'', o_editable = True, o_dispatched = []\<rparr>"

definition example_idle :: "string renderer" where
  "example_idle = innerEditor example_styles example_view"

definition example_editing :: "string renderer" where
  "example_editing =
     snd (onFocus text_prose bracket_pos example_styles example_node example_idle)"

text \<open>
  A second instance, whose step mapping cannot represent a step that starts at the very
  beginning of the inner document.
\<close>

definition lossy_prose :: "string prose" where
  "lossy_prose =
     text_prose\<lparr>step_map := (\<lambda>m st. if step_from st = 0 then None else offset_step m st)\<rparr>"

section \<open>Lemmas\<close>

subsection \<open>The diff scans\<close>

lemma diff_scan_prefix:
  "\<exists>n. diff_scan a b pos = pos + int n \<and> n \<le> length a \<and> n \<le> length b \<and> take n a = take n b"
proof (induction a b pos rule: diff_scan.induct)
  case (1 x xs y ys pos)
  show ?case
  proof (cases "x = y")
    case True
    with 1 obtain n where n: "diff_scan xs ys (pos + 1) = pos + 1 + int n" "n \<le> length xs"
      "n \<le> length ys" "take n xs = take n ys" by auto
    show ?thesis
      using True n by (intro exI[of _ "Suc n"]) simp
  next
    case False
    then show ?thesis by (intro exI[of _ 0]) simp
  qed
qed (auto intro: exI[of _ 0])

lemma drop_eq_mono:
  assumes "drop i a = drop j b"
  shows "drop (k + i) a = drop (k + j) b"
  using assms by (metis drop_drop)

lemma diff_scan_suffix:
  "\<exists>n. diff_scan (rev a) (rev b) 0 = int n \<and> n \<le> length a \<and> n \<le> length b
       \<and> drop (length a - n) a = drop (length b - n) b"
proof -
  obtain n where n: "diff_scan (rev a) (rev b) 0 = 0 + int n" "n \<le> length (rev a)"
    "n \<le> length (rev b)" "take n (rev a) = take n (rev b)"
    using diff_scan_prefix[of "rev a" "rev b" 0] by blast
  have "rev (take n (rev a)) = rev (take n (rev b))" using n(4) by simp
  then have "drop (length a - n) a = drop (length b - n) b"
    by (simp add: rev_take)
  with n show ?thesis by auto
qed

lemma splice_eq:
  fixes a b :: "'a list"
  assumes p: "p \<le> ea" "ea \<le> length a" "p \<le> eb" "eb \<le> length b"
    and pre: "take p a = take p b"
    and suf: "drop ea a = drop eb b"
  shows "take p b @ take (ea - p) (drop p a) @ drop eb b = a"
proof -
  have "take p a @ take (ea - p) (drop p a) = take ea a"
    using p by (metis add_diff_cancel_left' le_Suc_ex take_add)
  then have "take p a @ take (ea - p) (drop p a) @ drop ea a = a"
    by (metis append_assoc append_take_drop_id)
  then show ?thesis using pre suf by simp
qed

lemma diff_ends:
  assumes "a \<noteq> b"
  shows "\<exists>p ea eb d. findDiffStart a b = Some (int p) \<and> findDiffEnd a b = Some d
      \<and> adjust_ends (int p) d = (int ea, int eb)
      \<and> p \<le> ea \<and> ea \<le> length a \<and> p \<le> eb \<and> eb \<le> length b
      \<and> take p a = take p b \<and> drop ea a = drop eb b"
proof -
  obtain p where p: "diff_scan a b 0 = int p" "p \<le> length a" "p \<le> length b"
    "take p a = take p b"
    using diff_scan_prefix[of a b 0] by auto
  obtain s where s: "diff_scan (rev a) (rev b) 0 = int s" "s \<le> length a" "s \<le> length b"
    "drop (length a - s) a = drop (length b - s) b"
    using diff_scan_suffix[of a b] by auto
  define d where "d = (int (length a) - int s, int (length b) - int s)"
  have start: "findDiffStart a b = Some (int p)"
    using assms p(1) by (simp add: findDiffStart_def)
  have fde: "findDiffEnd a b = Some d"
    using assms s(1) by (simp add: findDiffEnd_def d_def Let_def)
  show ?thesis
  proof (cases "int p - min (int (length a) - int s) (int (length b) - int s) > 0")
    case False
    then have adj: "adjust_ends (int p) d = (int (length a - s), int (length b - s))"
      using s(2,3) by (simp add: adjust_ends_def d_def Let_def)
    have "p \<le> length a - s" "p \<le> length b - s"
      using False s(2,3) by linarith+
    with start fde adj p s show ?thesis
      by (intro exI[of _ p] exI[of _ "length a - s"] exI[of _ "length b - s"] exI[of _ d]) simp
  next
    case True
    define k where "k = p + s - min (length a) (length b)"
    have kpos: "p + s > min (length a) (length b)"
      using True s(2,3) by linarith
    have adj: "adjust_ends (int p) d = (int (k + (length a - s)), int (k + (length b - s)))"
      using True s(2,3) kpos by (simp add: adjust_ends_def d_def Let_def k_def min_def)
    have b1: "p \<le> k + (length a - s)" "p \<le> k + (length b - s)"
      using kpos s(2,3) p(2,3) by (simp_all add: k_def)
    have b2: "k + (length a - s) \<le> length a" "k + (length b - s) \<le> length b"
      using kpos s(2,3) p(2,3) by (simp_all add: k_def)
    have "drop (k + (length a - s)) a = drop (k + (length b - s)) b"
      using s(4) by (rule drop_eq_mono)
    with start fde adj p b1 b2 show ?thesis
      by (intro exI[of _ p] exI[of _ "k + (length a - s)"] exI[of _ "k + (length b - s)"]
          exI[of _ d]) simp
  qed
qed

subsection \<open>The patch built by onUpdate\<close>

lemma build_patch_same:
  "content node = doc st \<Longrightarrow> build_patch node st = None"
  by (simp add: build_patch_def findDiffStart_def)

lemma build_patch_differs:
  assumes "content node \<noteq> doc st"
  shows "\<exists>start endA endB d slice.
      findDiffStart (content node) (doc st) = Some start
    \<and> findDiffEnd (content node) (doc st) = Some d
    \<and> adjust_ends start d = (endA, endB)
    \<and> 0 \<le> start \<and> start \<le> endA \<and> endA \<le> int (length (content node))
    \<and> start \<le> endB \<and> endB \<le> int (length (doc st))
    \<and> node_slice node start endA = Inr slice
    \<and> step_apply_text (doc st) (ReplaceStep start endB slice) = Some (content node)
    \<and> build_patch node st =
        Some (Inr \<lparr>tr_before = doc st, tr_doc = content node,
                   tr_steps = [ReplaceStep start endB slice],
                   tr_meta = [''fromOutside'' \<mapsto> True]\<rparr>)"
proof -
  let ?a = "content node" and ?b = "doc st"
  obtain p ea eb d where h:
    "findDiffStart ?a ?b = Some (int p)" "findDiffEnd ?a ?b = Some d"
    "adjust_ends (int p) d = (int ea, int eb)"
    "p \<le> ea" "ea \<le> length ?a" "p \<le> eb" "eb \<le> length ?b"
    "take p ?a = take p ?b" "drop ea ?a = drop eb ?b"
    using diff_ends[OF assms] by blast
  define slice where "slice = take (ea - p) (drop p ?a)"
  have sl: "node_slice node (int p) (int ea) = Inr slice"
    using h(4,5) by (simp add: node_slice_def slice_def Let_def nat_diff_distrib')
  have spl: "take p ?b @ slice @ drop eb ?b = ?a"
    unfolding slice_def using h(4-9) by (rule splice_eq)
  have app: "step_apply_text ?b (ReplaceStep (int p) (int eb) slice) = Some ?a"
    using h(6,7) spl by simp
  have nonempty: "\<not> (int p = int eb \<and> slice = [])"
  proof
    assume "int p = int eb \<and> slice = []"
    then have "take p ?b @ drop p ?b = ?a" using spl by simp
    then show False using assms by simp
  qed
  have rep: "tr_replace (int p) (int eb) slice (state_tr ?b) =
      Inr \<lparr>tr_before = ?b, tr_doc = ?a, tr_steps = [ReplaceStep (int p) (int eb) slice],
           tr_meta = Map.empty\<rparr>"
    using nonempty h(6,7) spl by (simp add: tr_replace_def tr_step_def state_tr_def)
  have bp: "build_patch node st =
      Some (Inr \<lparr>tr_before = ?b, tr_doc = ?a, tr_steps = [ReplaceStep (int p) (int eb) slice],
                 tr_meta = [''fromOutside'' \<mapsto> True]\<rparr>)"
    using h(1,2,3) sl rep by (simp add: build_patch_def setMeta_def)
  show ?thesis
    using h sl app bp
    by (intro exI[of _ "int p"] exI[of _ "int ea"] exI[of _ "int eb"] exI[of _ d]
        exI[of _ slice]) simp
qed

lemma build_patch_transforms:
  assumes "content node \<noteq> doc st"
  shows "\<exists>start d endA endB slice.
        findDiffStart (content node) (doc st) = Some start
      \<and> findDiffEnd (content node) (doc st) = Some d
      \<and> adjust_ends start d = (endA, endB)
      \<and> node_slice node start endA = Inr slice
      \<and> build_patch node st =
          Some (Inr (setMeta ''fromOutside'' True
            \<lparr>tr_before = doc st, tr_doc = content node,
             tr_steps = [ReplaceStep start endB slice], tr_meta = Map.empty\<rparr>))
      \<and> step_apply_text (doc st) (ReplaceStep start endB slice) = Some (content node)"
proof -
  from build_patch_differs[OF assms] obtain start endA endB d slice where
    "findDiffStart (content node) (doc st) = Some start"
    "findDiffEnd (content node) (doc st) = Some d"
    "adjust_ends start d = (endA, endB)"
    "node_slice node start endA = Inr slice"
    "step_apply_text (doc st) (ReplaceStep start endB slice) = Some (content node)"
    "build_patch node st =
        Some (Inr \<lparr>tr_before = doc st, tr_doc = content node,
                   tr_steps = [ReplaceStep start endB slice],
                   tr_meta = [''fromOutside'' \<mapsto> True]\<rparr>)"
    by blast
  then show ?thesis
    by (intro exI[of _ start] exI[of _ d] exI[of _ endA] exI[of _ endB] exI[of _ slice])
      (simp add: setMeta_def)
qed

subsection \<open>Dispatching an externally tagged transaction\<close>

lemma dispatchTransaction_fromOutside:
  assumes "innerView w = Some iv" "tr_before tr = doc (iv_state iv)" "getMeta tr ''fromOutside''"
  shows "dispatchTransaction P getPos tr w =
    (None, w\<lparr>innerView := Some (iv\<lparr>iv_state := (iv_state iv)\<lparr>doc := tr_doc tr\<rparr>\<rparr>)\<rparr>)"
  using assms by (simp add: dispatchTransaction_def applyTransaction_def)

lemma dispatchTransaction_outer_fromOutside:
  "getMeta tr ''fromOutside'' \<Longrightarrow> outerView (snd (dispatchTransaction P getPos tr w)) = outerView w"
  by (simp add: dispatchTransaction_def applyTransaction_def split: option.splits)

lemma view_dispatch_fromOutside:
  assumes "innerView w = Some iv" "tr_before tr = doc (iv_state iv)" "getMeta tr ''fromOutside''"
  shows "view_dispatch P getPos tr w =
    (None, w\<lparr>innerView := Some (iv\<lparr>iv_state := (iv_state iv)\<lparr>doc := tr_doc tr\<rparr>,
                                  iv_received := iv_received iv @ [tr]\<rparr>)\<rparr>)"
proof -
  let ?iv = "iv\<lparr>iv_received := iv_received iv @ [tr]\<rparr>"
  let ?w = "w\<lparr>innerView := Some ?iv\<rparr>"
  have "dispatchTransaction P getPos tr ?w =
    (None, ?w\<lparr>innerView := Some (?iv\<lparr>iv_state := (iv_state ?iv)\<lparr>doc := tr_doc tr\<rparr>\<rparr>)\<rparr>)"
    using assms by (intro dispatchTransaction_fromOutside) simp_all
  then show ?thesis using assms(1) by (simp add: view_dispatch_def)
qed

subsection \<open>onUpdate\<close>

lemma onUpdate_same:
  assumes "innerView w = Some iv" "content node = doc (iv_state iv)"
  shows "onUpdate P getPos node False w =
     (None, w\<lparr>editor_value := Some (content node), rendered := rendered w @ [content node]\<rparr>)"
  using assms by (simp add: onUpdate_def build_patch_same Let_def)

lemma onUpdate_closed:
  assumes "innerView w = None"
  shows "onUpdate P getPos node False w =
     (None, w\<lparr>editor_value := Some (content node), rendered := rendered w @ [content node]\<rparr>)"
  using assms by (simp add: onUpdate_def Let_def)

lemma onUpdate_differs:
  assumes "innerView w = Some iv" "content node \<noteq> doc (iv_state iv)"
  shows "\<exists>tr. build_patch node (iv_state iv) = Some (Inr tr) \<and> getMeta tr ''fromOutside''
     \<and> tr_before tr = doc (iv_state iv) \<and> tr_doc tr = content node
     \<and> onUpdate P getPos node False w =
     (None, w\<lparr>innerView := Some (iv\<lparr>iv_state := (iv_state iv)\<lparr>doc := content node\<rparr>,
                                  iv_received := iv_received iv @ [tr]\<rparr>),
              editor_value := Some (content node), rendered := rendered w @ [content node]\<rparr>)"
proof -
  obtain tr where tr: "build_patch node (iv_state iv) = Some (Inr tr)"
    "tr_before tr = doc (iv_state iv)" "tr_doc tr = content node"
    "tr_meta tr = [''fromOutside'' \<mapsto> True]"
    using build_patch_differs[OF assms(2)] by force
  have g: "getMeta tr ''fromOutside''" using tr(4) by (simp add: getMeta_def)
  have "view_dispatch P getPos tr w =
    (None, w\<lparr>innerView := Some (iv\<lparr>iv_state := (iv_state iv)\<lparr>doc := tr_doc tr\<rparr>,
                                  iv_received := iv_received iv @ [tr]\<rparr>)\<rparr>)"
    using assms(1) tr(2) g by (rule view_dispatch_fromOutside)
  then have "onUpdate P getPos node False w =
     (None, w\<lparr>innerView := Some (iv\<lparr>iv_state := (iv_state iv)\<lparr>doc := content node\<rparr>,
                                  iv_received := iv_received iv @ [tr]\<rparr>),
              editor_value := Some (content node), rendered := rendered w @ [content node]\<rparr>)"
    using assms(1) tr(1,3) by (simp add: onUpdate_def Let_def)
  with tr g show ?thesis by blast
qed

lemma onUpdate_outer:
  "outerView (snd (onUpdate P getPos node isInit w)) = outerView w"
proof (cases isInit)
  case True
  then show ?thesis by (simp add: onUpdate_def)
next
  case False
  show ?thesis
  proof (cases "innerView w")
    case None
    then show ?thesis using False onUpdate_closed[OF None, of P getPos node] by simp
  next
    case (Some iv)
    show ?thesis
    proof (cases "content node = doc (iv_state iv)")
      case True
      then show ?thesis using False onUpdate_same[OF Some True, of P getPos] by simp
    next
      case d: False
      from onUpdate_differs[OF Some d, of P getPos] obtain tr where
        "onUpdate P getPos node False w =
          (None, w\<lparr>innerView := Some (iv\<lparr>iv_state := (iv_state iv)\<lparr>doc := content node\<rparr>,
                                  iv_received := iv_received iv @ [tr]\<rparr>),
              editor_value := Some (content node), rendered := rendered w @ [content node]\<rparr>)"
        by blast
      then show ?thesis using False by simp
    qed
  qed
qed

lemma onUpdate_received:
  assumes "innerView w = Some iv"
  shows "\<exists>iv' ts. innerView (snd (onUpdate P getPos node isInit w)) = Some iv'
            \<and> iv_received iv' = iv_received iv @ ts
            \<and> (\<forall>t\<in>set ts. getMeta t ''fromOutside'')"
proof (cases isInit)
  case True
  then show ?thesis using assms by (simp add: onUpdate_def)
next
  case False
  show ?thesis
  proof (cases "content node = doc (iv_state iv)")
    case True
    then show ?thesis using False assms onUpdate_same[OF assms True, of P getPos] by simp
  next
    case d: False
    from onUpdate_differs[OF assms d, of P getPos] obtain tr where
      g: "getMeta tr ''fromOutside''" and
      "onUpdate P getPos node False w =
          (None, w\<lparr>innerView := Some (iv\<lparr>iv_state := (iv_state iv)\<lparr>doc := content node\<rparr>,
                                  iv_received := iv_received iv @ [tr]\<rparr>),
              editor_value := Some (content node), rendered := rendered w @ [content node]\<rparr>)"
      by blast
    then have "innerView (snd (onUpdate P getPos node isInit w)) =
        Some (iv\<lparr>iv_state := (iv_state iv)\<lparr>doc := content node\<rparr>,
                 iv_received := iv_received iv @ [tr]\<rparr>)"
      using False by simp
    then show ?thesis using g
      by (intro exI[of _ "iv\<lparr>iv_state := (iv_state iv)\<lparr>doc := content node\<rparr>,
                 iv_received := iv_received iv @ [tr]\<rparr>"] exI[of _ "[tr]"]) simp
  qed
qed

lemma onUpdate_inner_doc:
  assumes "innerView w = Some iv"
  shows "\<exists>iv'. innerView (snd (onUpdate P getPos node False w)) = Some iv'
          \<and> doc (iv_state iv') = content node"
proof (cases "content node = doc (iv_state iv)")
  case True
  then show ?thesis using assms onUpdate_same[OF assms True, of P getPos] by simp
next
  case d: False
  from onUpdate_differs[OF assms d, of P getPos] obtain tr where
    "onUpdate P getPos node False w =
        (None, w\<lparr>innerView := Some (iv\<lparr>iv_state := (iv_state iv)\<lparr>doc := content node\<rparr>,
                                iv_received := iv_received iv @ [tr]\<rparr>),
            editor_value := Some (content node), rendered := rendered w @ [content node]\<rparr>)"
    by blast
  then show ?thesis by simp
qed

subsection \<open>Forwarding in dispatchTransaction\<close>

lemma forward_transactions_single:
  "forward_transactions P m [t] otr = forward_steps P m (tr_steps t) otr"
  by (simp split: sum.splits)

lemma dispatchTransaction_forward:
  assumes "innerView w = Some iv" "tr_before tr = doc (iv_state iv)"
    "\<not> getMeta tr ''fromOutside''"
  shows "dispatchTransaction P getPos tr w =
    (case forward_steps P (StepMap_offset (getPos (outerView w) + 1)) (tr_steps tr)
            (state_tr (o_doc (outerView w))) of
       Inl e \<Rightarrow> (Some e, w\<lparr>innerView := Some (iv\<lparr>iv_state := (iv_state iv)\<lparr>doc := tr_doc tr\<rparr>\<rparr>)\<rparr>)
     | Inr outerTr \<Rightarrow>
         if docChanged P outerTr
         then (None, w\<lparr>innerView := Some (iv\<lparr>iv_state := (iv_state iv)\<lparr>doc := tr_doc tr\<rparr>\<rparr>),
                       outerView := outer_dispatch outerTr (outerView w)\<rparr>)
         else (None, w\<lparr>innerView := Some (iv\<lparr>iv_state := (iv_state iv)\<lparr>doc := tr_doc tr\<rparr>\<rparr>)\<rparr>))"
  using assms
  by (simp add: dispatchTransaction_def applyTransaction_def Let_def
      forward_transactions_single del: forward_transactions.simps split: sum.splits)

lemma forward_steps_append:
  "forward_steps P m (xs @ ys) otr =
     (case forward_steps P m xs otr of Inl e \<Rightarrow> Inl e | Inr otr' \<Rightarrow> forward_steps P m ys otr')"
  by (induction xs arbitrary: otr) (auto split: option.splits sum.splits)

lemma forward_steps_mapped:
  "forward_steps P m sts otr = Inr otr' \<Longrightarrow>
     \<exists>ms. map (step_map P m) sts = map Some ms \<and> tr_steps otr' = tr_steps otr @ ms
        \<and> tr_before otr' = tr_before otr \<and> tr_meta otr' = tr_meta otr"
proof (induction sts arbitrary: otr)
  case Nil
  then show ?case by simp
next
  case (Cons st sts)
  from Cons.prems obtain mapped otr1 where
    m: "step_map P m st = Some mapped" and
    s: "tr_step (step_apply P) otr mapped = Inr otr1" and
    r: "forward_steps P m sts otr1 = Inr otr'"
    by (auto split: option.splits sum.splits)
  from s have o1: "tr_steps otr1 = tr_steps otr @ [mapped]" "tr_before otr1 = tr_before otr"
    "tr_meta otr1 = tr_meta otr"
    by (auto simp: tr_step_def split: option.splits)
  from Cons.IH[OF r] obtain ms where
    "map (step_map P m) sts = map Some ms" "tr_steps otr' = tr_steps otr1 @ ms"
    "tr_before otr' = tr_before otr1" "tr_meta otr' = tr_meta otr1" by blast
  with m o1 show ?case
    by (intro exI[of _ "mapped # ms"]) simp
qed

lemma forward_steps_unmapped:
  "\<exists>s\<in>set sts. step_map P m s = None \<Longrightarrow> \<exists>e. forward_steps P m sts otr = Inl e"
proof (rule ccontr)
  assume a: "\<exists>s\<in>set sts. step_map P m s = None" and "\<not> (\<exists>e. forward_steps P m sts otr = Inl e)"
  then obtain otr' where "forward_steps P m sts otr = Inr otr'"
    by (cases "forward_steps P m sts otr") auto
  from forward_steps_mapped[OF this] obtain ms where "map (step_map P m) sts = map Some ms"
    by blast
  then have "\<forall>s\<in>set sts. step_map P m s \<noteq> None"
    by (metis (no_types, lifting) imageE list.set_map option.distinct(1) image_eqI)
  with a show False by blast
qed

lemma forward_steps_no_step:
  assumes "forward_steps P m sts (state_tr d) = Inr outerTr"
  shows "(tr_steps outerTr = []) = (sts = [])"
proof -
  from forward_steps_mapped[OF assms] obtain ms where
    ms: "map (step_map P m) sts = map Some ms" "tr_steps outerTr = tr_steps (state_tr d) @ ms"
    by blast
  from ms(1) have "length sts = length ms" by (metis length_map)
  then have "(ms = []) = (sts = [])" by (metis length_0_conv)
  with ms(2) show ?thesis by (simp add: state_tr_def)
qed

subsection \<open>Opening and closing the editor\<close>

lemma onBlur_idem: "onBlur sty (onBlur sty w) = onBlur sty w"
  by (simp add: onBlur_def closeEditor_def Let_def classList_add_def classList_remove_def
      split: option.splits)

lemma onBlur_idle:
  assumes "innerView w = None" "\<not> isEditing w"
    "hideCodeStyle sty = [] \<or> hideCodeStyle sty \<in> set (editor_classes w)"
    "''ProseMirror-selectednode'' \<notin> set (dom_classes w)"
  shows "onBlur sty w = w"
  using assms
  by (auto simp: onBlur_def closeEditor_def Let_def classList_add_def classList_remove_def)

lemma onBlur_closes:
  "innerView (onBlur sty w) = None" "\<not> isEditing (onBlur sty w)"
  "innerView w = Some iv \<Longrightarrow> view_id iv \<notin> set (live_views (onBlur sty w))"
  "innerView w = None \<Longrightarrow> live_views (onBlur sty w) = live_views w"
  "fresh_id (onBlur sty w) = fresh_id w"
  by (simp_all add: onBlur_def closeEditor_def Let_def split: option.splits)

lemma openEditor_result:
  "\<exists>ov. openEditor P getPos node w =
     (None, w\<lparr>innerView := Some \<lparr>view_id = fresh_id w, iv_state = \<lparr>doc = content node\<rparr>,
                  iv_focused = True, iv_received = [state_tr (content node)]\<rparr>,
              fresh_id := fresh_id w + 1, live_views := live_views w @ [fresh_id w],
              outerView := ov, isEditing := True\<rparr>)
     \<and> (\<not> docChanged P (state_tr (o_doc (outerView w))) \<longrightarrow> ov = outerView w)"
proof (cases "docChanged P (state_tr (o_doc (outerView w)))")
  case True
  then show ?thesis
    by (intro exI[of _ "outer_dispatch (state_tr (o_doc (outerView w))) (outerView w)"])
      (simp add: openEditor_def view_dispatch_def dispatchTransaction_def applyTransaction_def
        getMeta_def state_tr_def Let_def)
next
  case False
  then show ?thesis
    by (intro exI[of _ "outerView w"])
      (simp add: openEditor_def view_dispatch_def dispatchTransaction_def applyTransaction_def
        getMeta_def state_tr_def Let_def)
qed

lemma onFocus_not_editable:
  "\<not> o_editable (outerView w) \<Longrightarrow> onFocus P getPos sty node w = (None, w)"
  by (simp add: onFocus_def)

lemma onFocus_editable:
  assumes "o_editable (outerView w)"
  shows "fst (onFocus P getPos sty node w) = None"
    "isEditing (snd (onFocus P getPos sty node w))"
    "innerView (snd (onFocus P getPos sty node w)) =
       Some \<lparr>view_id = fresh_id w, iv_state = \<lparr>doc = content node\<rparr>,
             iv_focused = True, iv_received = [state_tr (content node)]\<rparr>"
    "fresh_id (snd (onFocus P getPos sty node w)) = fresh_id w + 1"
    "live_views (snd (onFocus P getPos sty node w)) = live_views w @ [fresh_id w]"
proof -
  let ?w1 = "if hideCodeStyle sty \<noteq> []
        then w\<lparr>editor_classes := classList_remove (hideCodeStyle sty) (editor_classes w)\<rparr>
        else w"
  have f: "fresh_id ?w1 = fresh_id w" "live_views ?w1 = live_views w" by simp_all
  from openEditor_result[of P getPos node ?w1] obtain ov where
    "openEditor P getPos node ?w1 =
     (None, ?w1\<lparr>innerView := Some \<lparr>view_id = fresh_id ?w1, iv_state = \<lparr>doc = content node\<rparr>,
                  iv_focused = True, iv_received = [state_tr (content node)]\<rparr>,
              fresh_id := fresh_id ?w1 + 1, live_views := live_views ?w1 @ [fresh_id ?w1],
              outerView := ov, isEditing := True\<rparr>)"
    by blast
  then have r: "onFocus P getPos sty node w =
     (None, ?w1\<lparr>innerView := Some \<lparr>view_id = fresh_id w, iv_state = \<lparr>doc = content node\<rparr>,
                  iv_focused = True, iv_received = [state_tr (content node)]\<rparr>,
              fresh_id := fresh_id w + 1, live_views := live_views w @ [fresh_id w],
              outerView := ov, isEditing := True,
              dom_classes := classList_add ''ProseMirror-selectednode'' (dom_classes w)\<rparr>)"
    using assms by (simp add: onFocus_def Let_def f split: if_splits)
  show "fst (onFocus P getPos sty node w) = None"
    "isEditing (snd (onFocus P getPos sty node w))"
    "innerView (snd (onFocus P getPos sty node w)) =
       Some \<lparr>view_id = fresh_id w, iv_state = \<lparr>doc = content node\<rparr>,
             iv_focused = True, iv_received = [state_tr (content node)]\<rparr>"
    "fresh_id (snd (onFocus P getPos sty node w)) = fresh_id w + 1"
    "live_views (snd (onFocus P getPos sty node w)) = live_views w @ [fresh_id w]"
    using r by simp_all
qed

subsection \<open>The example states\<close>

lemma example_idle_eq:
  "example_idle =
     \<lparr>outerView = example_view, isEditing = False, innerView = None, fresh_id = 0,
      live_views = [], editor_classes = [''code'', ''hide''], dom_classes = [''math-block''],
      preview_classes = [''panel''], editor_value = None, dom_attached = False,
      editor_attached = True, preview_attached = False, rendered = []\<rparr>"
  by (simp add: example_idle_def innerEditor_def example_styles_def classList_add_def)

lemma example_editing_eq:
  "example_editing =
     \<lparr>outerView = example_view, isEditing = True,
      innerView = Some \<lparr>view_id = 0, iv_state = \<lparr>doc = ''x = 1''\<rparr>, iv_focused = True,
                        iv_received = [state_tr ''x = 1'']\<rparr>,
      fresh_id = 1, live_views = [0], editor_classes = [''code''],
      dom_classes = [''math-block'', ''ProseMirror-selectednode''],
      preview_classes = [''panel''], editor_value = None, dom_attached = False,
      editor_attached = True, preview_attached = False, rendered = []\<rparr>"
  by (simp add: example_editing_def example_idle_eq onFocus_def openEditor_def
      view_dispatch_def dispatchTransaction_def applyTransaction_def getMeta_def
      state_tr_def text_prose_def example_view_def example_styles_def example_node_def
      classList_add_def classList_remove_def Let_def)

lemmas example_defs =
  example_editing_eq example_view_def example_node_def example_styles_def text_prose_def
  bracket_pos_def

lemmas run_defs =
  onUpdate_def build_patch_def findDiffStart_def findDiffEnd_def adjust_ends_def
  node_slice_def tr_replace_def tr_step_def state_tr_def setMeta_def getMeta_def
  view_dispatch_def dispatchTransaction_def applyTransaction_def outer_dispatch_def Let_def

section \<open>The claims\<close>

subsection \<open>C1: Loop freedom\<close>

text \<open>
  Claim C1 (loop freedom). A transaction that carries the \<open>fromOutside\<close> tag leaves the
  outer view as it is when \<open>dispatchTransaction\<close> handles it: nothing is dispatched to
  the outer document. Every transaction that \<open>onUpdate\<close> hands to an open inner view
  (the patch of the reconciliation) carries that tag, and \<open>onUpdate\<close> as a whole leaves
  the outer view as it is, so a reconciliation patch is never forwarded back.
\<close>

theorem loop_freedom:
  "(getMeta tr ''fromOutside'' \<longrightarrow>
      outerView (snd (dispatchTransaction P getPos tr w)) = outerView w)
   \<and> (\<forall>iv. innerView w = Some iv \<longrightarrow>
        (\<exists>iv' ts. innerView (snd (onUpdate P getPos node isInit w)) = Some iv'
            \<and> iv_received iv' = iv_received iv @ ts
            \<and> (\<forall>t\<in>set ts. getMeta t ''fromOutside'')))
   \<and> outerView (snd (onUpdate P getPos node isInit w)) = outerView w"
  using dispatchTransaction_outer_fromOutside[of tr P getPos w]
    onUpdate_received[of w _ P getPos node isInit] onUpdate_outer[of P getPos node isInit w]
  by blast

text \<open>
  The undo scenario in the other direction: the session holds \<open>x = 1\<close>, the outer node
  now holds \<open>x = 1+1\<close>. The patch is tagged, the inner view receives it, and nothing is
  dispatched to the outer view.
\<close>

theorem loop_freedom_witness:
  "getMeta \<lparr>tr_before = ''x = 1'', tr_doc = ''x = 1+1'', tr_steps = [ReplaceStep 5 5 ''+1''],
            tr_meta = [''fromOutside'' \<mapsto> True]\<rparr> ''fromOutside''
   \<and> outerView (snd (dispatchTransaction text_prose bracket_pos
         \<lparr>tr_before = ''x = 1'', tr_doc = ''x = 1+1'', tr_steps = [ReplaceStep 5 5 ''+1''],
          tr_meta = [''fromOutside'' \<mapsto> True]\<rparr> example_editing)) = example_view
   \<and> innerView example_editing =
       Some \<lparr>view_id = 0, iv_state = \<lparr>doc = ''x = 1''\<rparr>, iv_focused = True,
             iv_received = [state_tr ''x = 1'']\<rparr>
   \<and> (\<exists>iv' ts. innerView (snd (onUpdate text_prose bracket_pos
           \<lparr>attrs_value = ''x = 1'', content = ''x = 1+1''\<rparr> False example_editing)) = Some iv'
         \<and> iv_received iv' = [state_tr ''x = 1''] @ ts
         \<and> list_all (\<lambda>t. getMeta t ''fromOutside'') ts)
   \<and> map_option iv_received (innerView (snd (onUpdate text_prose bracket_pos
         \<lparr>attrs_value = ''x = 1'', content = ''x = 1+1''\<rparr> False example_editing)))
       = Some [state_tr ''x = 1'',
          \<lparr>tr_before = ''x = 1'', tr_doc = ''x = 1+1'', tr_steps = [ReplaceStep 5 5 ''+1''],
           tr_meta = [''fromOutside'' \<mapsto> True]\<rparr>]
   \<and> outerView (snd (onUpdate text_prose bracket_pos
         \<lparr>attrs_value = ''x = 1'', content = ''x = 1+1''\<rparr> False example_editing))
       = example_view"
proof -
  let ?tr = "\<lparr>tr_before = ''x = 1'', tr_doc = ''x = 1+1'', tr_steps = [ReplaceStep 5 5 ''+1''],
            tr_meta = [''fromOutside'' \<mapsto> True]\<rparr> :: string transaction"
  let ?iv = "\<lparr>view_id = 0, iv_state = \<lparr>doc = ''x = 1''\<rparr>, iv_focused = True,
             iv_received = [state_tr ''x = 1'']\<rparr>"
  let ?node = "\<lparr>attrs_value = ''x = 1'', content = ''x = 1+1''\<rparr>"
  note t = loop_freedom[of ?tr text_prose bracket_pos example_editing ?node False]
  have g: "getMeta ?tr ''fromOutside''" by (simp add: getMeta_def)
  have o: "outerView example_editing = example_view" by (simp add: example_editing_eq)
  have i: "innerView example_editing = Some ?iv" by (simp add: example_editing_eq)
  have 1: "outerView (snd (dispatchTransaction text_prose bracket_pos ?tr example_editing))
      = example_view"
    using t g o by simp
  have 2: "\<exists>iv' ts. innerView (snd (onUpdate text_prose bracket_pos ?node False
              example_editing)) = Some iv'
         \<and> iv_received iv' = [state_tr ''x = 1''] @ ts
         \<and> list_all (\<lambda>t. getMeta t ''fromOutside'') ts"
    using t i by (simp add: list_all_iff)
  have 3: "outerView (snd (onUpdate text_prose bracket_pos ?node False example_editing))
      = example_view"
    using t o by simp
  have 4: "map_option iv_received (innerView (snd (onUpdate text_prose bracket_pos ?node False
        example_editing))) = Some [state_tr ''x = 1'', ?tr]"
    by (simp add: example_defs run_defs)
  show ?thesis using g 1 i 2 3 4 by simp
qed

subsection \<open>C2: Overlap correctness of the reconciliation\<close>

text \<open>
  Claim C2 (overlap correctness). When \<open>start\<close> exceeds \<open>min endA endB\<close>, both end
  offsets are extended by exactly \<open>start - min endA endB\<close>, and otherwise they are kept.
  For any node content that differs from the inner document, the patch replaces
  \<open>[start, endB)\<close> of the inner document by the node's slice \<open>[start, endA)\<close>, and
  applying that step to the inner document gives exactly the node's content; with a
  session open, the inner document after \<open>onUpdate\<close> is the node's content.
\<close>

theorem overlap_correctness:
  "(start > min endA endB \<longrightarrow>
      adjust_ends start (endA, endB) =
        (endA + (start - min endA endB), endB + (start - min endA endB)))
   \<and> (start \<le> min endA endB \<longrightarrow> adjust_ends start (endA, endB) = (endA, endB))
   \<and> (content node \<noteq> doc st \<longrightarrow>
        (\<exists>start' d endA' endB' slice.
            findDiffStart (content node) (doc st) = Some start'
          \<and> findDiffEnd (content node) (doc st) = Some d
          \<and> adjust_ends start' d = (endA', endB')
          \<and> node_slice node start' endA' = Inr slice
          \<and> build_patch node st =
              Some (Inr (setMeta ''fromOutside'' True
                \<lparr>tr_before = doc st, tr_doc = content node,
                 tr_steps = [ReplaceStep start' endB' slice], tr_meta = Map.empty\<rparr>))
          \<and> step_apply_text (doc st) (ReplaceStep start' endB' slice) = Some (content node)))
   \<and> (innerView w = Some iv \<longrightarrow>
        (\<exists>iv'. innerView (snd (onUpdate P getPos node False w)) = Some iv'
          \<and> doc (iv_state iv') = content node))"
proof -
  have a: "start > min endA endB \<longrightarrow>
      adjust_ends start (endA, endB) =
        (endA + (start - min endA endB), endB + (start - min endA endB))"
    by (auto simp: adjust_ends_def Let_def)
  have b: "start \<le> min endA endB \<longrightarrow> adjust_ends start (endA, endB) = (endA, endB)"
    by (auto simp: adjust_ends_def Let_def)
  show ?thesis
    using a b build_patch_transforms[of node st] onUpdate_inner_doc[of w iv P getPos node]
    by blast
qed

text \<open>
  The ambiguous boundary of the specification: inner \<open>aaa\<close>, outer \<open>aaaa\<close>. The scans
  give start 3 and ends 1 and 0, the overlap of 3 moves the ends to 4 and 3, and the patch
  inserts one \<open>a\<close> at position 3.
\<close>

theorem overlap_correctness_witness:
  "(3::int) > min 1 0
   \<and> adjust_ends 3 (1, 0) = (4, 3)
   \<and> content \<lparr>attrs_value = ''aaaa'', content = ''aaaa''\<rparr> \<noteq> doc \<lparr>doc = ''aaa''\<rparr>
   \<and> findDiffStart ''aaaa'' ''aaa'' = Some 3
   \<and> findDiffEnd ''aaaa'' ''aaa'' = Some (1, 0)
   \<and> build_patch \<lparr>attrs_value = ''aaaa'', content = ''aaaa''\<rparr> \<lparr>doc = ''aaa''\<rparr> =
        Some (Inr \<lparr>tr_before = ''aaa'', tr_doc = ''aaaa'', tr_steps = [ReplaceStep 3 3 ''a''],
                   tr_meta = [''fromOutside'' \<mapsto> True]\<rparr>)
   \<and> step_apply_text ''aaa'' (ReplaceStep 3 3 ''a'') = Some ''aaaa''
   \<and> innerView (example_editing\<lparr>innerView := Some \<lparr>view_id = 0, iv_state = \<lparr>doc = ''aaa''\<rparr>,
               iv_focused = True, iv_received = []\<rparr>\<rparr>)
       = Some \<lparr>view_id = 0, iv_state = \<lparr>doc = ''aaa''\<rparr>, iv_focused = True, iv_received = []\<rparr>
   \<and> (\<exists>iv'. innerView (snd (onUpdate text_prose bracket_pos
           \<lparr>attrs_value = ''aaaa'', content = ''aaaa''\<rparr> False
           (example_editing\<lparr>innerView := Some \<lparr>view_id = 0, iv_state = \<lparr>doc = ''aaa''\<rparr>,
               iv_focused = True, iv_received = []\<rparr>\<rparr>))) = Some iv'
         \<and> doc (iv_state iv') = ''aaaa'')"
proof -
  let ?node = "\<lparr>attrs_value = ''aaaa'', content = ''aaaa''\<rparr>"
  let ?st = "\<lparr>doc = ''aaa''\<rparr>"
  let ?iv = "\<lparr>view_id = 0, iv_state = ?st, iv_focused = True, iv_received = []\<rparr>"
  let ?w = "example_editing\<lparr>innerView := Some ?iv\<rparr>"
  note t = overlap_correctness[of 1 0 3 ?node ?st ?w ?iv text_prose bracket_pos]
  have a: "(3::int) > min 1 0" by simp
  have adj: "adjust_ends 3 (1, 0) = (4, 3)" using t a by simp
  have ne: "content ?node \<noteq> doc ?st" by simp
  from t ne obtain start' d endA' endB' slice where h:
    "findDiffStart (content ?node) (doc ?st) = Some start'"
    "findDiffEnd (content ?node) (doc ?st) = Some d"
    "adjust_ends start' d = (endA', endB')"
    "node_slice ?node start' endA' = Inr slice"
    "build_patch ?node ?st = Some (Inr (setMeta ''fromOutside'' True
        \<lparr>tr_before = doc ?st, tr_doc = content ?node,
         tr_steps = [ReplaceStep start' endB' slice], tr_meta = Map.empty\<rparr>))"
    "step_apply_text (doc ?st) (ReplaceStep start' endB' slice) = Some (content ?node)"
    by blast
  have s: "findDiffStart ''aaaa'' ''aaa'' = Some 3" by (simp add: findDiffStart_def)
  have e: "findDiffEnd ''aaaa'' ''aaa'' = Some (1, 0)" by (simp add: findDiffEnd_def Let_def)
  have v: "start' = 3" "d = (1, 0)" using h(1,2) s e by simp_all
  then have v2: "endA' = 4" "endB' = 3" using h(3) adj by simp_all
  have sl: "slice = ''a''" using h(4) v v2 by (simp add: node_slice_def)
  have bp: "build_patch ?node ?st =
        Some (Inr \<lparr>tr_before = ''aaa'', tr_doc = ''aaaa'', tr_steps = [ReplaceStep 3 3 ''a''],
                   tr_meta = [''fromOutside'' \<mapsto> True]\<rparr>)"
    using h(5) v v2 sl by (simp add: setMeta_def)
  have ap: "step_apply_text ''aaa'' (ReplaceStep 3 3 ''a'') = Some ''aaaa''"
    using h(6) v v2 sl by simp
  have i: "innerView ?w = Some ?iv" by simp
  have up: "\<exists>iv'. innerView (snd (onUpdate text_prose bracket_pos ?node False ?w)) = Some iv'
         \<and> doc (iv_state iv') = ''aaaa''"
    using t i by simp
  show ?thesis using a adj ne s e bp ap i up by simp
qed

subsection \<open>C3: A step that cannot be mapped\<close>

text \<open>
  Claim C3 (a mapping failure is fatal and loud). Forwarding a transaction that is not
  tagged \<open>fromOutside\<close>: if the mapping of one of its steps through the offset map is
  null, the dispatch ends in an error, the outer view is left as it is (no outer
  transaction is dispatched), and the error is \<open>step discarded!\<close> whenever the loop
  reaches that step, that is, whenever the steps before it were mapped and added to the
  outer transaction.
\<close>

theorem step_discarded_raised:
  assumes "innerView w = Some iv" and "tr_before tr = doc (iv_state iv)"
    and "\<not> getMeta tr ''fromOutside''"
    and "st \<in> set (tr_steps tr)"
    and "step_map P (StepMap_offset (getPos (outerView w) + 1)) st = None"
  shows "(\<exists>e. dispatchTransaction P getPos tr w =
            (Some e, w\<lparr>innerView := Some (iv\<lparr>iv_state := (iv_state iv)\<lparr>doc := tr_doc tr\<rparr>\<rparr>)\<rparr>))
       \<and> outerView (snd (dispatchTransaction P getPos tr w)) = outerView w
       \<and> (\<forall>pre post outerTr.
            tr_steps tr = pre @ st # post
          \<and> forward_steps P (StepMap_offset (getPos (outerView w) + 1)) pre
               (state_tr (o_doc (outerView w))) = Inr outerTr
          \<longrightarrow> dispatchTransaction P getPos tr w =
                (Some StepDiscarded,
                 w\<lparr>innerView := Some (iv\<lparr>iv_state := (iv_state iv)\<lparr>doc := tr_doc tr\<rparr>\<rparr>)\<rparr>))"
proof -
  let ?m = "StepMap_offset (getPos (outerView w) + 1)"
  let ?o = "state_tr (o_doc (outerView w))"
  let ?w1 = "w\<lparr>innerView := Some (iv\<lparr>iv_state := (iv_state iv)\<lparr>doc := tr_doc tr\<rparr>\<rparr>)\<rparr>"
  note unf = dispatchTransaction_forward[OF assms(1,2,3), of P getPos]
  obtain e where e: "forward_steps P ?m (tr_steps tr) ?o = Inl e"
    using forward_steps_unmapped[of "tr_steps tr" P ?m ?o] assms(4,5) by blast
  have 1: "dispatchTransaction P getPos tr w = (Some e, ?w1)"
    using unf e by simp
  have 3: "dispatchTransaction P getPos tr w = (Some StepDiscarded, ?w1)"
    if "tr_steps tr = pre @ st # post" "forward_steps P ?m pre ?o = Inr outerTr"
    for pre post outerTr
  proof -
    have "forward_steps P ?m (tr_steps tr) ?o = Inl StepDiscarded"
      using that assms(5) by (simp add: forward_steps_append)
    then show ?thesis using unf by simp
  qed
  show ?thesis using 1 3 by auto
qed

text \<open>
  With the framework instance that cannot map a step at position 0: the first step is
  mapped and added, the second one is not mapped, the error is raised and nothing is
  dispatched.
\<close>

theorem step_discarded_raised_witness:
  "innerView example_editing =
     Some \<lparr>view_id = 0, iv_state = \<lparr>doc = ''x = 1''\<rparr>, iv_focused = True,
           iv_received = [state_tr ''x = 1'']\<rparr>
   \<and> \<not> getMeta \<lparr>tr_before = ''x = 1'', tr_doc = ''yx = 1+1'',
         tr_steps = [ReplaceStep 5 5 ''+1'', ReplaceStep 0 0 ''y''],
         tr_meta = (Map.empty :: string \<rightharpoonup> bool)\<rparr> ''fromOutside''
   \<and> step_map lossy_prose (StepMap_offset (bracket_pos (outerView example_editing) + 1))
        (ReplaceStep 0 0 ''y'') = None
   \<and> forward_steps lossy_prose (StepMap_offset (bracket_pos (outerView example_editing) + 1))
        [ReplaceStep 5 5 ''+1''] (state_tr (o_doc (outerView example_editing)))
       = Inr \<lparr>tr_before = ''ab[x = 1]cd'', tr_doc = ''ab[x = 1+1]cd'',
              tr_steps = [ReplaceStep 8 8 ''+1''], tr_meta = Map.empty\<rparr>
   \<and> dispatchTransaction lossy_prose bracket_pos
        \<lparr>tr_before = ''x = 1'', tr_doc = ''yx = 1+1'',
         tr_steps = [ReplaceStep 5 5 ''+1'', ReplaceStep 0 0 ''y''], tr_meta = Map.empty\<rparr>
        example_editing
       = (Some StepDiscarded,
          example_editing\<lparr>innerView :=
            Some \<lparr>view_id = 0, iv_state = \<lparr>doc = ''yx = 1+1''\<rparr>, iv_focused = True,
                  iv_received = [state_tr ''x = 1'']\<rparr>\<rparr>)
   \<and> outerView (snd (dispatchTransaction lossy_prose bracket_pos
        \<lparr>tr_before = ''x = 1'', tr_doc = ''yx = 1+1'',
         tr_steps = [ReplaceStep 5 5 ''+1'', ReplaceStep 0 0 ''y''], tr_meta = Map.empty\<rparr>
        example_editing))
       = \<lparr>o_doc = ''ab[x = 1]cd'', o_editable = True, o_dispatched = []\<rparr>"
proof -
  let ?iv = "\<lparr>view_id = 0, iv_state = \<lparr>doc = ''x = 1''\<rparr>, iv_focused = True,
             iv_received = [state_tr ''x = 1'']\<rparr>"
  let ?tr = "\<lparr>tr_before = ''x = 1'', tr_doc = ''yx = 1+1'',
         tr_steps = [ReplaceStep 5 5 ''+1'', ReplaceStep 0 0 ''y''],
         tr_meta = (Map.empty :: string \<rightharpoonup> bool)\<rparr>"
  let ?m = "StepMap_offset (bracket_pos (outerView example_editing) + 1)"
  let ?otr = "\<lparr>tr_before = ''ab[x = 1]cd'', tr_doc = ''ab[x = 1+1]cd'',
              tr_steps = [ReplaceStep 8 8 ''+1''], tr_meta = (Map.empty :: string \<rightharpoonup> bool)\<rparr>"
  have h1: "innerView example_editing = Some ?iv" by (simp add: example_editing_eq)
  have h2: "tr_before ?tr = doc (iv_state ?iv)" by simp
  have h3: "\<not> getMeta ?tr ''fromOutside''" by (simp add: getMeta_def)
  have h4: "ReplaceStep 0 0 ''y'' \<in> set (tr_steps ?tr)" by simp
  have h5: "step_map lossy_prose ?m (ReplaceStep 0 0 ''y'') = None"
    by (simp add: lossy_prose_def)
  have pre: "tr_steps ?tr = [ReplaceStep 5 5 ''+1''] @ ReplaceStep 0 0 ''y'' # []
      \<and> forward_steps lossy_prose ?m [ReplaceStep 5 5 ''+1'']
          (state_tr (o_doc (outerView example_editing))) = Inr ?otr"
    by (simp add: example_defs lossy_prose_def tr_step_def state_tr_def)
  note t = step_discarded_raised[where P = lossy_prose and getPos = bracket_pos, OF h1 h2 h3 h4 h5]
  from t pre have d: "dispatchTransaction lossy_prose bracket_pos ?tr example_editing =
      (Some StepDiscarded,
       example_editing\<lparr>innerView := Some (?iv\<lparr>iv_state := (iv_state ?iv)\<lparr>doc := tr_doc ?tr\<rparr>\<rparr>)\<rparr>)"
    by blast
  from t have o: "outerView (snd (dispatchTransaction lossy_prose bracket_pos ?tr
      example_editing)) = outerView example_editing"
    by blast
  show ?thesis using h1 h3 h5 pre d o by (simp add: example_editing_eq example_view_def)
qed

subsection \<open>C4: Lifecycle: blur and focus\<close>

text \<open>
  Claim C4 as stated fails for focus: \<open>openEditor\<close> has no guard on an open session.
  A second focus request on an editable host constructs a second inner view (instance 1
  beside instance 0, which is not destroyed), so the state after two focus requests is not
  the state after one.
\<close>

theorem focus_twice_counterexample:
  "snd (onFocus text_prose bracket_pos example_styles example_node
         (snd (onFocus text_prose bracket_pos example_styles example_node example_idle)))
     \<noteq> snd (onFocus text_prose bracket_pos example_styles example_node example_idle)
   \<and> isEditing (snd (onFocus text_prose bracket_pos example_styles example_node example_idle))
   \<and> live_views (snd (onFocus text_prose bracket_pos example_styles example_node example_idle))
       = [0]
   \<and> live_views (snd (onFocus text_prose bracket_pos example_styles example_node
         (snd (onFocus text_prose bracket_pos example_styles example_node example_idle))))
       = [0, 1]"
proof -
  let ?w1 = "snd (onFocus text_prose bracket_pos example_styles example_node example_idle)"
  let ?w2 = "snd (onFocus text_prose bracket_pos example_styles example_node ?w1)"
  have e: "o_editable (outerView example_idle)"
    by (simp add: example_idle_eq example_view_def)
  have w1: "?w1 = example_editing" by (simp add: example_editing_def)
  have e1: "o_editable (outerView ?w1)"
    unfolding w1 by (simp add: example_editing_eq example_view_def)
  have l1: "live_views ?w1 = [0]" "fresh_id ?w1 = 1" "isEditing ?w1"
    unfolding w1 by (simp_all add: example_editing_eq)
  have l2: "live_views ?w2 = [0, 1]"
    using onFocus_editable(5)[OF e1, of text_prose bracket_pos example_styles example_node] l1
    by simp
  have "?w2 \<noteq> ?w1"
  proof
    assume "?w2 = ?w1"
    then have "live_views ?w2 = live_views ?w1" by simp
    then show False using l1 l2 by simp
  qed
  then show ?thesis using l1 l2 by simp
qed

text \<open>
  Claim C4, amended. Calling blur twice in a row leaves the state that calling it once
  leaves, and a blur while idle (no inner view, editor element hidden, node not marked as
  selected) changes nothing; a blur with no inner view never touches the store of
  instances. A focus request on a host that is not editable changes nothing. A focus
  request on an editable host always constructs a fresh inner view on the node's content,
  whether or not a session is open: the instances constructed before stay in the store.
\<close>

theorem lifecycle_blur_idempotent:
  "onBlur sty (onBlur sty w) = onBlur sty w
   \<and> (innerView w = None \<and> \<not> isEditing w
        \<and> (hideCodeStyle sty = [] \<or> hideCodeStyle sty \<in> set (editor_classes w))
        \<and> ''ProseMirror-selectednode'' \<notin> set (dom_classes w)
      \<longrightarrow> onBlur sty w = w)
   \<and> (innerView w = None
      \<longrightarrow> innerView (onBlur sty w) = None \<and> live_views (onBlur sty w) = live_views w
          \<and> fresh_id (onBlur sty w) = fresh_id w)
   \<and> (\<not> o_editable (outerView w) \<longrightarrow> onFocus P getPos sty node w = (None, w))
   \<and> (o_editable (outerView w)
      \<longrightarrow> fst (onFocus P getPos sty node w) = None
          \<and> isEditing (snd (onFocus P getPos sty node w))
          \<and> innerView (snd (onFocus P getPos sty node w)) =
              Some \<lparr>view_id = fresh_id w, iv_state = \<lparr>doc = content node\<rparr>,
                    iv_focused = True, iv_received = [state_tr (content node)]\<rparr>
          \<and> fresh_id (snd (onFocus P getPos sty node w)) = fresh_id w + 1
          \<and> live_views (snd (onFocus P getPos sty node w)) = live_views w @ [fresh_id w])"
  using onBlur_idem[of sty w] onBlur_idle[of w sty] onBlur_closes(1,4,5)[where sty = sty and w = w]
    onFocus_not_editable[of w P getPos sty node]
    onFocus_editable[of w P getPos sty node]
  by blast

text \<open>
  On the example: blur twice after a focus, blur on the idle state, focus on a host that is
  not editable, and a second focus on the open session.
\<close>

theorem lifecycle_blur_idempotent_witness:
  "onBlur example_styles (onBlur example_styles example_editing)
     = onBlur example_styles example_editing
   \<and> innerView example_idle = None \<and> \<not> isEditing example_idle
   \<and> hideCodeStyle example_styles \<in> set (editor_classes example_idle)
   \<and> ''ProseMirror-selectednode'' \<notin> set (dom_classes example_idle)
   \<and> onBlur example_styles example_idle = example_idle
   \<and> \<not> o_editable (outerView (example_idle\<lparr>outerView := example_view\<lparr>o_editable := False\<rparr>\<rparr>))
   \<and> onFocus text_prose bracket_pos example_styles example_node
        (example_idle\<lparr>outerView := example_view\<lparr>o_editable := False\<rparr>\<rparr>)
       = (None, example_idle\<lparr>outerView := example_view\<lparr>o_editable := False\<rparr>\<rparr>)
   \<and> o_editable (outerView example_editing)
   \<and> isEditing example_editing
   \<and> map_option view_id (innerView (snd (onFocus text_prose bracket_pos example_styles
        example_node example_editing))) = Some 1
   \<and> fresh_id (snd (onFocus text_prose bracket_pos example_styles example_node
        example_editing)) = 2
   \<and> live_views (snd (onFocus text_prose bracket_pos example_styles example_node
        example_editing)) = [0, 1]"
proof -
  let ?ro = "example_idle\<lparr>outerView := example_view\<lparr>o_editable := False\<rparr>\<rparr>"
  note t1 = lifecycle_blur_idempotent[of example_styles example_editing text_prose bracket_pos
      example_node]
  note t2 = lifecycle_blur_idempotent[of example_styles example_idle text_prose bracket_pos
      example_node]
  note t3 = lifecycle_blur_idempotent[of example_styles ?ro text_prose bracket_pos example_node]
  have i: "innerView example_idle = None" "\<not> isEditing example_idle"
    "hideCodeStyle example_styles \<in> set (editor_classes example_idle)"
    "''ProseMirror-selectednode'' \<notin> set (dom_classes example_idle)"
    by (simp_all add: example_idle_eq example_styles_def)
  have b: "onBlur example_styles example_idle = example_idle" using t2 i by blast
  have n: "\<not> o_editable (outerView ?ro)" by simp
  have f: "onFocus text_prose bracket_pos example_styles example_node ?ro = (None, ?ro)"
    using t3 n by blast
  have e: "o_editable (outerView example_editing)" "isEditing example_editing"
    "fresh_id example_editing = 1" "live_views example_editing = [0]"
    by (simp_all add: example_editing_eq example_view_def)
  have g: "map_option view_id (innerView (snd (onFocus text_prose bracket_pos example_styles
        example_node example_editing))) = Some 1"
    "fresh_id (snd (onFocus text_prose bracket_pos example_styles example_node
        example_editing)) = 2"
    "live_views (snd (onFocus text_prose bracket_pos example_styles example_node
        example_editing)) = [0, 1]"
    using t1 e by simp_all
  show ?thesis using t1 i b n f e(1,2) g by simp
qed

subsection \<open>C5: onDestroy\<close>

text \<open>
  Claim C5 as stated fails: \<open>onDestroy\<close> does not close the session. Called on the open
  session of the example, it leaves the inner view in place, \<open>isEditing\<close> set and the
  instance in the store.
\<close>

theorem onDestroy_counterexample:
  "isEditing example_editing
   \<and> innerView (onDestroy example_editing) =
       Some \<lparr>view_id = 0, iv_state = \<lparr>doc = ''x = 1''\<rparr>, iv_focused = True,
             iv_received = [state_tr ''x = 1'']\<rparr>
   \<and> isEditing (onDestroy example_editing)
   \<and> live_views (onDestroy example_editing) = [0]"
  by (simp add: onDestroy_def example_editing_eq)

text \<open>
  Claim C5, amended. \<open>onDestroy\<close> detaches the three DOM elements and nothing else: the
  inner view, \<open>isEditing\<close>, the store of instances and the outer view are as before, so
  an open session stays open. The transition from Editing to Idle is made by \<open>onBlur\<close>
  (through \<open>closeEditor\<close>), after which there is no inner view and the instance that was
  open is destroyed.
\<close>

theorem onDestroy_releases_dom_only:
  "\<not> preview_attached (onDestroy w) \<and> \<not> editor_attached (onDestroy w)
   \<and> \<not> dom_attached (onDestroy w)
   \<and> innerView (onDestroy w) = innerView w
   \<and> isEditing (onDestroy w) = isEditing w
   \<and> live_views (onDestroy w) = live_views w
   \<and> outerView (onDestroy w) = outerView w
   \<and> innerView (onBlur sty w) = None \<and> \<not> isEditing (onBlur sty w)
   \<and> (\<forall>iv. innerView w = Some iv \<longrightarrow> view_id iv \<notin> set (live_views (onBlur sty w)))"
  using onBlur_closes(1,2,3)[where sty = sty and w = w] by (simp add: onDestroy_def)

text \<open>
  On the open session of the example: \<open>onDestroy\<close> detaches the editor element and
  keeps instance 0, \<open>onBlur\<close> destroys it.
\<close>

theorem onDestroy_releases_dom_only_witness:
  "editor_attached example_editing
   \<and> \<not> editor_attached (onDestroy example_editing)
   \<and> innerView example_editing =
       Some \<lparr>view_id = 0, iv_state = \<lparr>doc = ''x = 1''\<rparr>, iv_focused = True,
             iv_received = [state_tr ''x = 1'']\<rparr>
   \<and> innerView (onDestroy example_editing) =
       Some \<lparr>view_id = 0, iv_state = \<lparr>doc = ''x = 1''\<rparr>, iv_focused = True,
             iv_received = [state_tr ''x = 1'']\<rparr>
   \<and> live_views (onDestroy example_editing) = [0]
   \<and> innerView (onBlur example_styles example_editing) = None
   \<and> 0 \<notin> set (live_views (onBlur example_styles example_editing))"
proof -
  let ?iv = "\<lparr>view_id = 0, iv_state = \<lparr>doc = ''x = 1''\<rparr>, iv_focused = True,
             iv_received = [state_tr ''x = 1'']\<rparr>"
  note t = onDestroy_releases_dom_only[of example_editing example_styles]
  have i: "innerView example_editing = Some ?iv" "live_views example_editing = [0]"
    "editor_attached example_editing"
    by (simp_all add: example_editing_eq)
  from t i(1) have "view_id ?iv \<notin> set (live_views (onBlur example_styles example_editing))"
    by blast
  then have d: "0 \<notin> set (live_views (onBlur example_styles example_editing))" by simp
  show ?thesis using t i d by simp
qed

subsection \<open>C6: Offset mapping\<close>

text \<open>
  Claim C6 (offset mapping). When a transaction that is not tagged \<open>fromOutside\<close> is
  forwarded, every one of its steps is mapped through \<open>StepMap.offset(getPos() + 1)\<close>,
  where \<open>getPos\<close> reads the outer view at the time of this dispatch, and the mapped steps
  are the steps of the one outer transaction, which is dispatched when the framework
  reports it as changed. Hence, with the constant-offset mapping, typing \<open>+1\<close> at the end
  of an inner document \<open>x = 1\<close> dispatches exactly one outer transaction, whose only
  step inserts \<open>+1\<close> at \<open>getPos() + 1 + 5\<close>.
\<close>

theorem offset_mapping:
  "(innerView w = Some iv \<and> tr_before tr = doc (iv_state iv) \<and> \<not> getMeta tr ''fromOutside''
      \<and> dispatchTransaction P getPos tr w = (None, w')
    \<longrightarrow> (\<exists>outerTr.
          forward_steps P (StepMap_offset (getPos (outerView w) + 1)) (tr_steps tr)
            (state_tr (o_doc (outerView w))) = Inr outerTr
        \<and> map (step_map P (StepMap_offset (getPos (outerView w) + 1))) (tr_steps tr)
            = map Some (tr_steps outerTr)
        \<and> outerView w' =
            (if docChanged P outerTr then outer_dispatch outerTr (outerView w)
             else outerView w)))
   \<and> (innerView w = Some iv \<and> doc (iv_state iv) = ''x = 1'' \<and> step_map P = offset_step
      \<and> step_apply P (o_doc (outerView w))
           (ReplaceStep (getPos (outerView w) + 1 + 5) (getPos (outerView w) + 1 + 5) ''+1'')
          = Some d'
      \<and> docChanged P
           \<lparr>tr_before = o_doc (outerView w), tr_doc = d',
            tr_steps = [ReplaceStep (getPos (outerView w) + 1 + 5)
                          (getPos (outerView w) + 1 + 5) ''+1''],
            tr_meta = Map.empty\<rparr>
    \<longrightarrow> (\<exists>typed.
          tr_replace 5 5 ''+1'' (state_tr (doc (iv_state iv))) = Inr typed
        \<and> dispatchTransaction P getPos typed w =
            (None,
             w\<lparr>innerView := Some (iv\<lparr>iv_state := (iv_state iv)\<lparr>doc := ''x = 1+1''\<rparr>\<rparr>),
               outerView := (outerView w)
                 \<lparr>o_doc := d',
                  o_dispatched := o_dispatched (outerView w) @
                    [\<lparr>tr_before = o_doc (outerView w), tr_doc = d',
                      tr_steps = [ReplaceStep (getPos (outerView w) + 1 + 5)
                                    (getPos (outerView w) + 1 + 5) ''+1''],
                      tr_meta = Map.empty\<rparr>]\<rparr>\<rparr>)))"
proof (intro conjI impI)
  let ?m = "StepMap_offset (getPos (outerView w) + 1)"
  let ?o = "state_tr (o_doc (outerView w))"
  assume a: "innerView w = Some iv \<and> tr_before tr = doc (iv_state iv)
      \<and> \<not> getMeta tr ''fromOutside'' \<and> dispatchTransaction P getPos tr w = (None, w')"
  then have unf: "(case forward_steps P ?m (tr_steps tr) ?o of
       Inl e \<Rightarrow> (Some e, w\<lparr>innerView := Some (iv\<lparr>iv_state := (iv_state iv)\<lparr>doc := tr_doc tr\<rparr>\<rparr>)\<rparr>)
     | Inr outerTr \<Rightarrow>
         if docChanged P outerTr
         then (None, w\<lparr>innerView := Some (iv\<lparr>iv_state := (iv_state iv)\<lparr>doc := tr_doc tr\<rparr>\<rparr>),
                       outerView := outer_dispatch outerTr (outerView w)\<rparr>)
         else (None, w\<lparr>innerView := Some (iv\<lparr>iv_state := (iv_state iv)\<lparr>doc := tr_doc tr\<rparr>\<rparr>)\<rparr>))
      = (None, w')"
    using dispatchTransaction_forward[of w iv tr P getPos] by simp
  then obtain outerTr where f: "forward_steps P ?m (tr_steps tr) ?o = Inr outerTr"
    by (cases "forward_steps P ?m (tr_steps tr) ?o") auto
  from forward_steps_mapped[OF f] have
    m: "map (step_map P ?m) (tr_steps tr) = map Some (tr_steps outerTr)"
    by (auto simp: state_tr_def)
  have "outerView w' =
      (if docChanged P outerTr then outer_dispatch outerTr (outerView w) else outerView w)"
    using unf f by (auto split: if_splits)
  with f m show "\<exists>outerTr.
          forward_steps P ?m (tr_steps tr) ?o = Inr outerTr
        \<and> map (step_map P ?m) (tr_steps tr) = map Some (tr_steps outerTr)
        \<and> outerView w' =
            (if docChanged P outerTr then outer_dispatch outerTr (outerView w)
             else outerView w)"
    by blast
next
  let ?base = "getPos (outerView w) + 1"
  let ?m = "StepMap_offset ?base"
  let ?o = "state_tr (o_doc (outerView w))"
  let ?otr = "\<lparr>tr_before = o_doc (outerView w), tr_doc = d',
            tr_steps = [ReplaceStep (?base + 5) (?base + 5) ''+1''], tr_meta = Map.empty\<rparr>"
  let ?typed = "\<lparr>tr_before = ''x = 1'', tr_doc = ''x = 1+1'',
      tr_steps = [ReplaceStep 5 5 ''+1''], tr_meta = Map.empty\<rparr>"
  assume a: "innerView w = Some iv \<and> doc (iv_state iv) = ''x = 1'' \<and> step_map P = offset_step
      \<and> step_apply P (o_doc (outerView w)) (ReplaceStep (?base + 5) (?base + 5) ''+1'') = Some d'
      \<and> docChanged P ?otr"
  have typed: "tr_replace 5 5 ''+1'' (state_tr (doc (iv_state iv))) = Inr ?typed"
    using a by (simp add: tr_replace_def tr_step_def state_tr_def)
  have fw: "forward_steps P ?m (tr_steps ?typed) ?o = Inr ?otr"
    using a by (simp add: tr_step_def state_tr_def add.commute)
  have "dispatchTransaction P getPos ?typed w =
      (None, w\<lparr>innerView := Some (iv\<lparr>iv_state := (iv_state iv)\<lparr>doc := tr_doc ?typed\<rparr>\<rparr>),
               outerView := outer_dispatch ?otr (outerView w)\<rparr>)"
    using dispatchTransaction_forward[of w iv ?typed P getPos] a fw
    by (simp add: getMeta_def)
  then have "dispatchTransaction P getPos ?typed w =
            (None,
             w\<lparr>innerView := Some (iv\<lparr>iv_state := (iv_state iv)\<lparr>doc := ''x = 1+1''\<rparr>\<rparr>),
               outerView := (outerView w)
                 \<lparr>o_doc := d', o_dispatched := o_dispatched (outerView w) @ [?otr]\<rparr>\<rparr>)"
    by (simp add: outer_dispatch_def)
  with typed show "\<exists>typed.
          tr_replace 5 5 ''+1'' (state_tr (doc (iv_state iv))) = Inr typed
        \<and> dispatchTransaction P getPos typed w =
            (None,
             w\<lparr>innerView := Some (iv\<lparr>iv_state := (iv_state iv)\<lparr>doc := ''x = 1+1''\<rparr>\<rparr>),
               outerView := (outerView w)
                 \<lparr>o_doc := d', o_dispatched := o_dispatched (outerView w) @ [?otr]\<rparr>\<rparr>)"
    by blast
qed

text \<open>
  On the example the node opens at position 2, so the step lands at 8. With two more
  characters in front of the node the accessor returns 4 and the same inner step lands
  at 10: the offset is read at each dispatch.
\<close>

theorem offset_mapping_witness:
  "innerView example_editing =
     Some \<lparr>view_id = 0, iv_state = \<lparr>doc = ''x = 1''\<rparr>, iv_focused = True,
           iv_received = [state_tr ''x = 1'']\<rparr>
   \<and> bracket_pos (outerView example_editing) = 2
   \<and> step_map text_prose = offset_step
   \<and> step_apply text_prose (o_doc (outerView example_editing)) (ReplaceStep 8 8 ''+1'')
       = Some ''ab[x = 1+1]cd''
   \<and> docChanged text_prose
        \<lparr>tr_before = ''ab[x = 1]cd'', tr_doc = ''ab[x = 1+1]cd'',
         tr_steps = [ReplaceStep 8 8 ''+1''], tr_meta = Map.empty\<rparr>
   \<and> tr_replace 5 5 ''+1'' (state_tr ''x = 1'')
       = Inr \<lparr>tr_before = ''x = 1'', tr_doc = ''x = 1+1'', tr_steps = [ReplaceStep 5 5 ''+1''],
              tr_meta = Map.empty\<rparr>
   \<and> dispatchTransaction text_prose bracket_pos
        \<lparr>tr_before = ''x = 1'', tr_doc = ''x = 1+1'', tr_steps = [ReplaceStep 5 5 ''+1''],
         tr_meta = Map.empty\<rparr> example_editing
      = (None,
         example_editing
           \<lparr>innerView := Some \<lparr>view_id = 0, iv_state = \<lparr>doc = ''x = 1+1''\<rparr>, iv_focused = True,
                                iv_received = [state_tr ''x = 1'']\<rparr>,
            outerView := \<lparr>o_doc = ''ab[x = 1+1]cd'', o_editable = True,
                           o_dispatched =
                             [\<lparr>tr_before = ''ab[x = 1]cd'', tr_doc = ''ab[x = 1+1]cd'',
                               tr_steps = [ReplaceStep 8 8 ''+1''], tr_meta = Map.empty\<rparr>]\<rparr>\<rparr>)
   \<and> (\<exists>outerTr.
        forward_steps text_prose (StepMap_offset (2 + 1)) [ReplaceStep 5 5 ''+1'']
          (state_tr ''ab[x = 1]cd'') = Inr outerTr
      \<and> map (step_map text_prose (StepMap_offset (2 + 1))) [ReplaceStep 5 5 ''+1'']
          = map Some (tr_steps outerTr))
   \<and> bracket_pos \<lparr>o_doc = ''zzab[x = 1]cd'', o_editable = True, o_dispatched = []\<rparr> = 4
   \<and> map tr_steps (o_dispatched (outerView (snd (dispatchTransaction text_prose bracket_pos
        \<lparr>tr_before = ''x = 1'', tr_doc = ''x = 1+1'', tr_steps = [ReplaceStep 5 5 ''+1''],
         tr_meta = Map.empty\<rparr>
        (example_editing
           \<lparr>outerView := \<lparr>o_doc = ''zzab[x = 1]cd'', o_editable = True,
                           o_dispatched = []\<rparr>\<rparr>)))))
      = [[ReplaceStep 10 10 ''+1'']]"
proof -
  let ?iv = "\<lparr>view_id = 0, iv_state = \<lparr>doc = ''x = 1''\<rparr>, iv_focused = True,
             iv_received = [state_tr ''x = 1'']\<rparr>"
  let ?typed = "\<lparr>tr_before = ''x = 1'', tr_doc = ''x = 1+1'',
      tr_steps = [ReplaceStep 5 5 ''+1''], tr_meta = (Map.empty :: string \<rightharpoonup> bool)\<rparr>"
  let ?otr = "\<lparr>tr_before = ''ab[x = 1]cd'', tr_doc = ''ab[x = 1+1]cd'',
      tr_steps = [ReplaceStep 8 8 ''+1''], tr_meta = (Map.empty :: string \<rightharpoonup> bool)\<rparr>"
  let ?w' = "example_editing
      \<lparr>innerView := Some \<lparr>view_id = 0, iv_state = \<lparr>doc = ''x = 1+1''\<rparr>, iv_focused = True,
                           iv_received = [state_tr ''x = 1'']\<rparr>,
       outerView := \<lparr>o_doc = ''ab[x = 1+1]cd'', o_editable = True, o_dispatched = [?otr]\<rparr>\<rparr>"
  let ?moved = "example_editing
      \<lparr>outerView := \<lparr>o_doc = ''zzab[x = 1]cd'', o_editable = True, o_dispatched = []\<rparr>\<rparr>"
  let ?otr2 = "\<lparr>tr_before = ''zzab[x = 1]cd'', tr_doc = ''zzab[x = 1+1]cd'',
      tr_steps = [ReplaceStep 10 10 ''+1''], tr_meta = (Map.empty :: string \<rightharpoonup> bool)\<rparr>"
  note t = offset_mapping[where w = example_editing and iv = ?iv and P = text_prose
      and getPos = bracket_pos and d' = "''ab[x = 1+1]cd''" and tr = ?typed and w' = ?w']
  note t2 = offset_mapping[where w = ?moved and iv = ?iv and P = text_prose
      and getPos = bracket_pos and d' = "''zzab[x = 1+1]cd''"]
  have i: "innerView example_editing = Some ?iv" "doc (iv_state ?iv) = ''x = 1''"
    "outerView example_editing = example_view"
    by (simp_all add: example_editing_eq)
  have p: "bracket_pos (outerView example_editing) = 2"
    by (simp add: example_editing_eq example_view_def bracket_pos_def)
  have m: "step_map text_prose = offset_step" by (simp add: text_prose_def)
  have a: "step_apply text_prose (o_doc (outerView example_editing)) (ReplaceStep 8 8 ''+1'')
      = Some ''ab[x = 1+1]cd''"
    by (simp add: text_prose_def example_editing_eq example_view_def)
  have c: "docChanged text_prose ?otr" by (simp add: text_prose_def)
  have ty: "tr_replace 5 5 ''+1'' (state_tr ''x = 1'') = Inr ?typed"
    by (simp add: tr_replace_def tr_step_def state_tr_def)
  from t i p m a c obtain typed where
    "tr_replace 5 5 ''+1'' (state_tr ''x = 1'') = Inr typed"
    "dispatchTransaction text_prose bracket_pos typed example_editing = (None, ?w')"
    by (auto simp: example_view_def)
  with ty have d: "dispatchTransaction text_prose bracket_pos ?typed example_editing = (None, ?w')"
    by simp
  have g: "tr_before ?typed = doc (iv_state ?iv)" "\<not> getMeta ?typed ''fromOutside''"
    by (simp_all add: getMeta_def)
  have e1: "bracket_pos (outerView example_editing) + 1 = 2 + 1" using p by simp
  have e2: "tr_steps ?typed = [ReplaceStep 5 5 ''+1'']" by simp
  have e3: "o_doc (outerView example_editing) = ''ab[x = 1]cd''"
    by (simp add: i(3) example_view_def)
  from t i(1) g d have "\<exists>outerTr.
      forward_steps text_prose (StepMap_offset (bracket_pos (outerView example_editing) + 1))
       (tr_steps ?typed) (state_tr (o_doc (outerView example_editing))) = Inr outerTr
    \<and> map (step_map text_prose (StepMap_offset (bracket_pos (outerView example_editing) + 1)))
       (tr_steps ?typed) = map Some (tr_steps outerTr)"
    by blast
  then have f: "\<exists>outerTr.
        forward_steps text_prose (StepMap_offset (2 + 1)) [ReplaceStep 5 5 ''+1'']
          (state_tr ''ab[x = 1]cd'') = Inr outerTr
      \<and> map (step_map text_prose (StepMap_offset (2 + 1))) [ReplaceStep 5 5 ''+1'']
          = map Some (tr_steps outerTr)"
    unfolding e1 e2 e3 .
  have p2: "bracket_pos \<lparr>o_doc = ''zzab[x = 1]cd'', o_editable = True, o_dispatched = []\<rparr> = 4"
    by (simp add: bracket_pos_def)
  have i2: "innerView ?moved = Some ?iv" by (simp add: example_editing_eq)
  have a2: "step_apply text_prose (o_doc (outerView ?moved)) (ReplaceStep 10 10 ''+1'')
      = Some ''zzab[x = 1+1]cd''"
    by (simp add: text_prose_def)
  have c2: "docChanged text_prose ?otr2" by (simp add: text_prose_def)
  from t2 i2 i(2) m a2 c2 p2 obtain typed2 where
    "tr_replace 5 5 ''+1'' (state_tr ''x = 1'') = Inr typed2"
    "dispatchTransaction text_prose bracket_pos typed2 ?moved =
       (None, ?moved\<lparr>innerView := Some (?iv\<lparr>iv_state := (iv_state ?iv)\<lparr>doc := ''x = 1+1''\<rparr>\<rparr>),
          outerView := (outerView ?moved)\<lparr>o_doc := ''zzab[x = 1+1]cd'',
             o_dispatched := o_dispatched (outerView ?moved) @ [?otr2]\<rparr>\<rparr>)"
    by auto
  with ty have d2: "map tr_steps (o_dispatched (outerView (snd (dispatchTransaction text_prose
      bracket_pos ?typed ?moved)))) = [[ReplaceStep 10 10 ''+1'']]"
    by simp
  show ?thesis using i(1) p m a c ty d f p2 d2 by simp
qed

subsection \<open>C7: When a patch is emitted\<close>

text \<open>
  Claim C7 (when a patch is emitted). With a session open: if the node's content and the
  inner document are identical, no patch is built and \<open>onUpdate\<close> only renders (the inner
  view receives nothing); if they differ, the patch with the single step
  \<open>ReplaceStep start endB slice\<close> is dispatched to the inner view, also when the
  replaced range is empty (\<open>start = endB\<close>) or the slice is empty.
\<close>

theorem patch_emission:
  assumes "innerView w = Some iv"
  shows "(content node = doc (iv_state iv) \<longrightarrow>
           build_patch node (iv_state iv) = None
         \<and> onUpdate P getPos node False w =
             (None, w\<lparr>editor_value := Some (content node),
                      rendered := rendered w @ [content node]\<rparr>))
       \<and> (content node \<noteq> doc (iv_state iv) \<longrightarrow>
           (\<exists>start endA endB d slice tr.
               findDiffStart (content node) (doc (iv_state iv)) = Some start
             \<and> findDiffEnd (content node) (doc (iv_state iv)) = Some d
             \<and> adjust_ends start d = (endA, endB)
             \<and> node_slice node start endA = Inr slice
             \<and> tr = \<lparr>tr_before = doc (iv_state iv), tr_doc = content node,
                      tr_steps = [ReplaceStep start endB slice],
                      tr_meta = [''fromOutside'' \<mapsto> True]\<rparr>
             \<and> build_patch node (iv_state iv) = Some (Inr tr)
             \<and> onUpdate P getPos node False w =
                 (None, w\<lparr>innerView := Some (iv\<lparr>iv_state := (iv_state iv)\<lparr>doc := content node\<rparr>,
                                               iv_received := iv_received iv @ [tr]\<rparr>),
                          editor_value := Some (content node),
                          rendered := rendered w @ [content node]\<rparr>)))"
proof (intro conjI impI)
  assume same: "content node = doc (iv_state iv)"
  show "build_patch node (iv_state iv) = None" using same by (rule build_patch_same)
  show "onUpdate P getPos node False w =
      (None, w\<lparr>editor_value := Some (content node), rendered := rendered w @ [content node]\<rparr>)"
    using assms same by (rule onUpdate_same)
next
  assume d: "content node \<noteq> doc (iv_state iv)"
  from build_patch_differs[OF d] obtain start endA endB dd slice where h:
    "findDiffStart (content node) (doc (iv_state iv)) = Some start"
    "findDiffEnd (content node) (doc (iv_state iv)) = Some dd"
    "adjust_ends start dd = (endA, endB)"
    "node_slice node start endA = Inr slice"
    "build_patch node (iv_state iv) =
        Some (Inr \<lparr>tr_before = doc (iv_state iv), tr_doc = content node,
                   tr_steps = [ReplaceStep start endB slice],
                   tr_meta = [''fromOutside'' \<mapsto> True]\<rparr>)"
    by blast
  from onUpdate_differs[OF assms d, of P getPos] obtain tr where t:
    "build_patch node (iv_state iv) = Some (Inr tr)"
    "onUpdate P getPos node False w =
        (None, w\<lparr>innerView := Some (iv\<lparr>iv_state := (iv_state iv)\<lparr>doc := content node\<rparr>,
                                iv_received := iv_received iv @ [tr]\<rparr>),
            editor_value := Some (content node), rendered := rendered w @ [content node]\<rparr>)"
    by blast
  from h(5) t(1) have "tr = \<lparr>tr_before = doc (iv_state iv), tr_doc = content node,
                   tr_steps = [ReplaceStep start endB slice],
                   tr_meta = [''fromOutside'' \<mapsto> True]\<rparr>" by simp
  with h t show "\<exists>start endA endB d slice tr.
               findDiffStart (content node) (doc (iv_state iv)) = Some start
             \<and> findDiffEnd (content node) (doc (iv_state iv)) = Some d
             \<and> adjust_ends start d = (endA, endB)
             \<and> node_slice node start endA = Inr slice
             \<and> tr = \<lparr>tr_before = doc (iv_state iv), tr_doc = content node,
                      tr_steps = [ReplaceStep start endB slice],
                      tr_meta = [''fromOutside'' \<mapsto> True]\<rparr>
             \<and> build_patch node (iv_state iv) = Some (Inr tr)
             \<and> onUpdate P getPos node False w =
                 (None, w\<lparr>innerView := Some (iv\<lparr>iv_state := (iv_state iv)\<lparr>doc := content node\<rparr>,
                                               iv_received := iv_received iv @ [tr]\<rparr>),
                          editor_value := Some (content node),
                          rendered := rendered w @ [content node]\<rparr>)"
    by blast
qed

text \<open>
  Identical content: nothing is received. An insertion at a point (\<open>x = +1\<close> against
  \<open>x = 1\<close>): the patch replaces the empty range at 4. A deletion (\<open>x 1\<close> against
  \<open>x = 1\<close>): the patch has an empty slice.
\<close>

theorem patch_emission_witness:
  "innerView example_editing =
     Some \<lparr>view_id = 0, iv_state = \<lparr>doc = ''x = 1''\<rparr>, iv_focused = True,
           iv_received = [state_tr ''x = 1'']\<rparr>
   \<and> map_option iv_received (innerView (snd (onUpdate text_prose bracket_pos
        \<lparr>attrs_value = ''x = 1'', content = ''x = 1''\<rparr> False example_editing)))
       = Some [state_tr ''x = 1'']
   \<and> findDiffStart ''x = +1'' ''x = 1'' = Some 4
   \<and> findDiffEnd ''x = +1'' ''x = 1'' = Some (5, 4)
   \<and> map_option iv_received (innerView (snd (onUpdate text_prose bracket_pos
        \<lparr>attrs_value = ''x = 1'', content = ''x = +1''\<rparr> False example_editing)))
       = Some [state_tr ''x = 1'',
           \<lparr>tr_before = ''x = 1'', tr_doc = ''x = +1'', tr_steps = [ReplaceStep 4 4 ''+''],
            tr_meta = [''fromOutside'' \<mapsto> True]\<rparr>]
   \<and> map_option iv_received (innerView (snd (onUpdate text_prose bracket_pos
        \<lparr>attrs_value = ''x = 1'', content = ''x 1''\<rparr> False example_editing)))
       = Some [state_tr ''x = 1'',
           \<lparr>tr_before = ''x = 1'', tr_doc = ''x 1'', tr_steps = [ReplaceStep 2 4 ''''],
            tr_meta = [''fromOutside'' \<mapsto> True]\<rparr>]"
proof -
  let ?iv = "\<lparr>view_id = 0, iv_state = \<lparr>doc = ''x = 1''\<rparr>, iv_focused = True,
             iv_received = [state_tr ''x = 1'']\<rparr>"
  let ?same = "\<lparr>attrs_value = ''x = 1'', content = ''x = 1''\<rparr>"
  let ?ins = "\<lparr>attrs_value = ''x = 1'', content = ''x = +1''\<rparr>"
  let ?del = "\<lparr>attrs_value = ''x = 1'', content = ''x 1''\<rparr>"
  have i: "innerView example_editing = Some ?iv" by (simp add: example_editing_eq)
  note t1 = patch_emission[OF i, of ?same text_prose bracket_pos]
  note t2 = patch_emission[OF i, of ?ins text_prose bracket_pos]
  note t3 = patch_emission[OF i, of ?del text_prose bracket_pos]
  have 1: "map_option iv_received (innerView (snd (onUpdate text_prose bracket_pos ?same False
      example_editing))) = Some [state_tr ''x = 1'']"
    using t1 i by simp
  have bi: "build_patch ?ins (iv_state ?iv) =
      Some (Inr \<lparr>tr_before = ''x = 1'', tr_doc = ''x = +1'', tr_steps = [ReplaceStep 4 4 ''+''],
            tr_meta = [''fromOutside'' \<mapsto> True]\<rparr>)"
    by (simp add: run_defs)
  have bd: "build_patch ?del (iv_state ?iv) =
      Some (Inr \<lparr>tr_before = ''x = 1'', tr_doc = ''x 1'', tr_steps = [ReplaceStep 2 4 ''''],
            tr_meta = [''fromOutside'' \<mapsto> True]\<rparr>)"
    by (simp add: run_defs)
  have ne: "content ?ins \<noteq> doc (iv_state ?iv)" "content ?del \<noteq> doc (iv_state ?iv)"
    by simp_all
  from t2 ne(1) obtain tr where
    "build_patch ?ins (iv_state ?iv) = Some (Inr tr)"
    "onUpdate text_prose bracket_pos ?ins False example_editing =
       (None, example_editing\<lparr>innerView := Some (?iv\<lparr>iv_state := (iv_state ?iv)\<lparr>doc := content ?ins\<rparr>,
                                               iv_received := iv_received ?iv @ [tr]\<rparr>),
                          editor_value := Some (content ?ins),
                          rendered := rendered example_editing @ [content ?ins]\<rparr>)"
    by blast
  with bi have 2: "map_option iv_received (innerView (snd (onUpdate text_prose bracket_pos ?ins
      False example_editing))) = Some [state_tr ''x = 1'',
           \<lparr>tr_before = ''x = 1'', tr_doc = ''x = +1'', tr_steps = [ReplaceStep 4 4 ''+''],
            tr_meta = [''fromOutside'' \<mapsto> True]\<rparr>]"
    by simp
  from t3 ne(2) obtain tr where
    "build_patch ?del (iv_state ?iv) = Some (Inr tr)"
    "onUpdate text_prose bracket_pos ?del False example_editing =
       (None, example_editing\<lparr>innerView := Some (?iv\<lparr>iv_state := (iv_state ?iv)\<lparr>doc := content ?del\<rparr>,
                                               iv_received := iv_received ?iv @ [tr]\<rparr>),
                          editor_value := Some (content ?del),
                          rendered := rendered example_editing @ [content ?del]\<rparr>)"
    by blast
  with bd have 3: "map_option iv_received (innerView (snd (onUpdate text_prose bracket_pos ?del
      False example_editing))) = Some [state_tr ''x = 1'',
           \<lparr>tr_before = ''x = 1'', tr_doc = ''x 1'', tr_steps = [ReplaceStep 2 4 ''''],
            tr_meta = [''fromOutside'' \<mapsto> True]\<rparr>]"
    by simp
  have s: "findDiffStart ''x = +1'' ''x = 1'' = Some 4"
    "findDiffEnd ''x = +1'' ''x = 1'' = Some (5, 4)"
    by (simp_all add: findDiffStart_def findDiffEnd_def Let_def)
  show ?thesis using i 1 s 2 3 by simp
qed

subsection \<open>C8: Rendering in onUpdate\<close>

text \<open>
  Claim C8 (rendering in \<open>onUpdate\<close>). Called with \<open>isInit\<close> true, it stores and
  renders the node's \<open>value\<close> attribute and changes nothing else. Called with
  \<open>isInit\<close> false, it completes without an error and renders the text of the node's
  content, whether or not a session is open.
\<close>

theorem onUpdate_rendering:
  "onUpdate P getPos node True w =
     (None, w\<lparr>editor_value := Some (attrs_value node),
              rendered := rendered w @ [attrs_value node]\<rparr>)
   \<and> fst (onUpdate P getPos node False w) = None
   \<and> rendered (snd (onUpdate P getPos node False w)) = rendered w @ [content node]
   \<and> editor_value (snd (onUpdate P getPos node False w)) = Some (content node)"
proof -
  have init: "onUpdate P getPos node True w =
     (None, w\<lparr>editor_value := Some (attrs_value node),
              rendered := rendered w @ [attrs_value node]\<rparr>)"
    by (simp add: onUpdate_def)
  have "\<exists>w1. rendered w1 = rendered w \<and> onUpdate P getPos node False w =
     (None, w1\<lparr>editor_value := Some (content node), rendered := rendered w @ [content node]\<rparr>)"
  proof (cases "innerView w")
    case None
    then show ?thesis using onUpdate_closed[OF None, of P getPos node] by blast
  next
    case (Some iv)
    show ?thesis
    proof (cases "content node = doc (iv_state iv)")
      case True
      then show ?thesis using onUpdate_same[OF Some True, of P getPos] by blast
    next
      case d: False
      from onUpdate_differs[OF Some d, of P getPos] obtain tr where
        "onUpdate P getPos node False w =
          (None, w\<lparr>innerView := Some (iv\<lparr>iv_state := (iv_state iv)\<lparr>doc := content node\<rparr>,
                                  iv_received := iv_received iv @ [tr]\<rparr>),
              editor_value := Some (content node), rendered := rendered w @ [content node]\<rparr>)"
        by blast
      then show ?thesis
        by (intro exI[of _ "w\<lparr>innerView := Some (iv\<lparr>iv_state := (iv_state iv)\<lparr>doc := content node\<rparr>,
                                  iv_received := iv_received iv @ [tr]\<rparr>)\<rparr>"]) simp
    qed
  qed
  then obtain w1 where "onUpdate P getPos node False w =
     (None, w1\<lparr>editor_value := Some (content node), rendered := rendered w @ [content node]\<rparr>)"
    by blast
  then show ?thesis using init by simp
qed

text \<open>
  The initial call on the idle example renders \<open>x = 1\<close>; a later call renders the new
  content, idle or editing.
\<close>

theorem onUpdate_rendering_witness:
  "onUpdate text_prose bracket_pos example_node True example_idle =
     (None, example_idle\<lparr>editor_value := Some ''x = 1'', rendered := [''x = 1'']\<rparr>)
   \<and> rendered (snd (onUpdate text_prose bracket_pos
        \<lparr>attrs_value = ''x = 1'', content = ''x = 2''\<rparr> False example_idle)) = [''x = 2'']
   \<and> rendered (snd (onUpdate text_prose bracket_pos
        \<lparr>attrs_value = ''x = 1'', content = ''x = 2''\<rparr> False example_editing)) = [''x = 2'']"
  using onUpdate_rendering[of text_prose bracket_pos example_node example_idle]
    onUpdate_rendering[of text_prose bracket_pos
      "\<lparr>attrs_value = ''x = 1'', content = ''x = 2''\<rparr>" example_idle]
    onUpdate_rendering[of text_prose bracket_pos
      "\<lparr>attrs_value = ''x = 1'', content = ''x = 2''\<rparr>" example_editing]
  by (simp add: example_defs example_idle_eq example_node_def)

subsection \<open>C9: No spurious outer edit\<close>

text \<open>
  Claim C9 as stated fails once the framework's \<open>docChanged\<close> reports whether a
  transaction holds a step. Replacing the first character of \<open>x = 1\<close> by the same
  character is a transaction with one step that leaves the inner document as it is; the
  mapped step leaves the outer document as it is as well, and yet the outer transaction is
  dispatched and recorded by the outer view.
\<close>

theorem identity_step_dispatched_counterexample:
  "tr_replace 0 1 ''x'' (state_tr ''x = 1'')
     = Inr \<lparr>tr_before = ''x = 1'', tr_doc = ''x = 1'', tr_steps = [ReplaceStep 0 1 ''x''],
            tr_meta = Map.empty\<rparr>
   \<and> innerView example_editing =
       Some \<lparr>view_id = 0, iv_state = \<lparr>doc = ''x = 1''\<rparr>, iv_focused = True,
             iv_received = [state_tr ''x = 1'']\<rparr>
   \<and> \<not> getMeta \<lparr>tr_before = ''x = 1'', tr_doc = ''x = 1'', tr_steps = [ReplaceStep 0 1 ''x''],
            tr_meta = (Map.empty :: string \<rightharpoonup> bool)\<rparr> ''fromOutside''
   \<and> forward_steps text_prose (StepMap_offset (bracket_pos (outerView example_editing) + 1))
        [ReplaceStep 0 1 ''x''] (state_tr (o_doc (outerView example_editing)))
       = Inr \<lparr>tr_before = ''ab[x = 1]cd'', tr_doc = ''ab[x = 1]cd'',
              tr_steps = [ReplaceStep 3 4 ''x''], tr_meta = Map.empty\<rparr>
   \<and> o_doc (outerView example_editing) = ''ab[x = 1]cd''
   \<and> o_dispatched (outerView example_editing) = []
   \<and> dispatchTransaction text_prose bracket_pos
        \<lparr>tr_before = ''x = 1'', tr_doc = ''x = 1'', tr_steps = [ReplaceStep 0 1 ''x''],
         tr_meta = Map.empty\<rparr> example_editing
       = (None,
          example_editing\<lparr>outerView :=
            \<lparr>o_doc = ''ab[x = 1]cd'', o_editable = True,
             o_dispatched =
               [\<lparr>tr_before = ''ab[x = 1]cd'', tr_doc = ''ab[x = 1]cd'',
                 tr_steps = [ReplaceStep 3 4 ''x''], tr_meta = Map.empty\<rparr>]\<rparr>\<rparr>)
   \<and> outerView (snd (dispatchTransaction text_prose bracket_pos
        \<lparr>tr_before = ''x = 1'', tr_doc = ''x = 1'', tr_steps = [ReplaceStep 0 1 ''x''],
         tr_meta = Map.empty\<rparr> example_editing)) \<noteq> outerView example_editing"
  by (simp add: example_defs run_defs)

text \<open>
  Claim C9, amended. Forwarding a transaction that is not tagged \<open>fromOutside\<close>, under
  a framework whose \<open>docChanged\<close> reports whether the transaction holds a step: the
  accumulated outer transaction holds no step exactly when the inner transaction has none,
  and then nothing is dispatched and the outer view, its document and the list of its
  dispatched transactions are as before. An outer transaction that holds a step is
  dispatched, whether or not its steps change the document.
\<close>

theorem no_step_no_outer_dispatch:
  assumes "innerView w = Some iv" and "tr_before tr = doc (iv_state iv)"
    and "\<not> getMeta tr ''fromOutside''"
    and "\<forall>t. docChanged P t = (tr_steps t \<noteq> [])"
  shows "(tr_steps tr = [] \<longrightarrow>
            dispatchTransaction P getPos tr w =
              (None, w\<lparr>innerView := Some (iv\<lparr>iv_state := (iv_state iv)\<lparr>doc := tr_doc tr\<rparr>\<rparr>)\<rparr>)
          \<and> outerView (snd (dispatchTransaction P getPos tr w)) = outerView w)
       \<and> (\<forall>outerTr.
            forward_steps P (StepMap_offset (getPos (outerView w) + 1)) (tr_steps tr)
              (state_tr (o_doc (outerView w))) = Inr outerTr
            \<longrightarrow> (tr_steps outerTr = []) = (tr_steps tr = [])
              \<and> (tr_steps outerTr = [] \<longrightarrow>
                    dispatchTransaction P getPos tr w =
                      (None, w\<lparr>innerView :=
                         Some (iv\<lparr>iv_state := (iv_state iv)\<lparr>doc := tr_doc tr\<rparr>\<rparr>)\<rparr>)
                  \<and> outerView (snd (dispatchTransaction P getPos tr w)) = outerView w)
              \<and> (tr_steps outerTr \<noteq> [] \<longrightarrow>
                    dispatchTransaction P getPos tr w =
                      (None, w\<lparr>innerView :=
                         Some (iv\<lparr>iv_state := (iv_state iv)\<lparr>doc := tr_doc tr\<rparr>\<rparr>),
                         outerView := outer_dispatch outerTr (outerView w)\<rparr>)))"
proof -
  let ?m = "StepMap_offset (getPos (outerView w) + 1)"
  let ?o = "state_tr (o_doc (outerView w))"
  let ?w1 = "w\<lparr>innerView := Some (iv\<lparr>iv_state := (iv_state iv)\<lparr>doc := tr_doc tr\<rparr>\<rparr>)\<rparr>"
  note unf = dispatchTransaction_forward[OF assms(1,2,3), of P getPos]
  have dc: "\<And>t. docChanged P t = (tr_steps t \<noteq> [])" using assms(4) by blast
  have a: "dispatchTransaction P getPos tr w = (None, ?w1)
      \<and> outerView (snd (dispatchTransaction P getPos tr w)) = outerView w"
    if "tr_steps tr = []"
  proof -
    have "forward_steps P ?m (tr_steps tr) ?o = Inr ?o" using that by simp
    moreover have "\<not> docChanged P ?o" by (simp add: dc state_tr_def)
    ultimately show ?thesis using unf by simp
  qed
  have b: "(tr_steps outerTr = []) = (tr_steps tr = [])
      \<and> (tr_steps outerTr = [] \<longrightarrow>
            dispatchTransaction P getPos tr w = (None, ?w1)
          \<and> outerView (snd (dispatchTransaction P getPos tr w)) = outerView w)
      \<and> (tr_steps outerTr \<noteq> [] \<longrightarrow>
            dispatchTransaction P getPos tr w =
              (None, w\<lparr>innerView :=
                 Some (iv\<lparr>iv_state := (iv_state iv)\<lparr>doc := tr_doc tr\<rparr>\<rparr>),
                 outerView := outer_dispatch outerTr (outerView w)\<rparr>))"
    if f: "forward_steps P ?m (tr_steps tr) ?o = Inr outerTr" for outerTr
  proof -
    have e: "(tr_steps outerTr = []) = (tr_steps tr = [])"
      using f by (rule forward_steps_no_step)
    have n: "tr_steps outerTr = [] \<longrightarrow>
            dispatchTransaction P getPos tr w = (None, ?w1)
          \<and> outerView (snd (dispatchTransaction P getPos tr w)) = outerView w"
      using unf f by (simp add: dc)
    have y: "tr_steps outerTr \<noteq> [] \<longrightarrow>
            dispatchTransaction P getPos tr w =
              (None, w\<lparr>innerView :=
                 Some (iv\<lparr>iv_state := (iv_state iv)\<lparr>doc := tr_doc tr\<rparr>\<rparr>),
                 outerView := outer_dispatch outerTr (outerView w)\<rparr>)"
      using unf f by (simp add: dc)
    show ?thesis using e n y by blast
  qed
  show ?thesis using a b by blast
qed

text \<open>
  A transaction with no steps (a change of selection) on the example session.
\<close>

theorem no_step_no_outer_dispatch_witness:
  "innerView example_editing =
     Some \<lparr>view_id = 0, iv_state = \<lparr>doc = ''x = 1''\<rparr>, iv_focused = True,
           iv_received = [state_tr ''x = 1'']\<rparr>
   \<and> \<not> getMeta (state_tr ''x = 1'') ''fromOutside''
   \<and> docChanged text_prose = (\<lambda>t. tr_steps t \<noteq> [])
   \<and> tr_steps (state_tr ''x = 1'') = []
   \<and> forward_steps text_prose (StepMap_offset (bracket_pos (outerView example_editing) + 1))
        (tr_steps (state_tr ''x = 1'')) (state_tr (o_doc (outerView example_editing)))
       = Inr (state_tr ''ab[x = 1]cd'')
   \<and> dispatchTransaction text_prose bracket_pos (state_tr ''x = 1'') example_editing
       = (None, example_editing)
   \<and> outerView (snd (dispatchTransaction text_prose bracket_pos (state_tr ''x = 1'')
        example_editing)) = example_view"
proof -
  let ?iv = "\<lparr>view_id = 0, iv_state = \<lparr>doc = ''x = 1''\<rparr>, iv_focused = True,
             iv_received = [state_tr ''x = 1'']\<rparr>"
  let ?tr = "state_tr ''x = 1''"
  have h1: "innerView example_editing = Some ?iv" by (simp add: example_editing_eq)
  have h2: "tr_before ?tr = doc (iv_state ?iv)" by (simp add: state_tr_def)
  have h3: "\<not> getMeta ?tr ''fromOutside''" by (simp add: getMeta_def state_tr_def)
  have h4: "\<forall>t. docChanged text_prose t = (tr_steps t \<noteq> [])" by (simp add: text_prose_def)
  have h4': "docChanged text_prose = (\<lambda>t. tr_steps t \<noteq> [])" by (simp add: text_prose_def)
  have n: "tr_steps ?tr = []" by (simp add: state_tr_def)
  have f: "forward_steps text_prose
      (StepMap_offset (bracket_pos (outerView example_editing) + 1)) (tr_steps ?tr)
      (state_tr (o_doc (outerView example_editing))) = Inr (state_tr ''ab[x = 1]cd'')"
    by (simp add: state_tr_def example_editing_eq example_view_def)
  note t = no_step_no_outer_dispatch[where P = text_prose and getPos = bracket_pos,
      OF h1 h2 h3 h4]
  from t n have d: "dispatchTransaction text_prose bracket_pos ?tr example_editing =
      (None, example_editing\<lparr>innerView :=
         Some (?iv\<lparr>iv_state := (iv_state ?iv)\<lparr>doc := tr_doc ?tr\<rparr>\<rparr>)\<rparr>)"
    "outerView (snd (dispatchTransaction text_prose bracket_pos ?tr example_editing))
       = outerView example_editing"
    by blast+
  have e: "example_editing\<lparr>innerView :=
      Some (?iv\<lparr>iv_state := (iv_state ?iv)\<lparr>doc := tr_doc ?tr\<rparr>\<rparr>)\<rparr> = example_editing"
    by (simp add: example_editing_eq state_tr_def)
  have o: "outerView example_editing = example_view" by (simp add: example_editing_eq)
  show ?thesis using h1 h3 h4' n f d e o by simp
qed

subsection \<open>C10: The inner state is updated first\<close>

text \<open>
  Claim C10 (the inner state is updated first). For a transaction the inner state accepts,
  the inner view holds the transaction's document after \<open>dispatchTransaction\<close>,
  whatever happens in forwarding; when forwarding throws, the state reached differs from
  the state before only in the inner view, so the inner document has the edit and the
  outer document does not; and forwarding throws whenever a step of a transaction that is
  not tagged has no mapping.
\<close>

theorem inner_applied_before_forwarding:
  assumes "innerView w = Some iv" and "tr_before tr = doc (iv_state iv)"
  shows "innerView (snd (dispatchTransaction P getPos tr w)) =
           Some (iv\<lparr>iv_state := (iv_state iv)\<lparr>doc := tr_doc tr\<rparr>\<rparr>)
       \<and> (fst (dispatchTransaction P getPos tr w) \<noteq> None \<longrightarrow>
            snd (dispatchTransaction P getPos tr w) =
              w\<lparr>innerView := Some (iv\<lparr>iv_state := (iv_state iv)\<lparr>doc := tr_doc tr\<rparr>\<rparr>)\<rparr>)
       \<and> (\<not> getMeta tr ''fromOutside''
          \<and> (\<exists>st\<in>set (tr_steps tr).
                step_map P (StepMap_offset (getPos (outerView w) + 1)) st = None)
          \<longrightarrow> fst (dispatchTransaction P getPos tr w) \<noteq> None)"
proof (cases "getMeta tr ''fromOutside''")
  case True
  then show ?thesis using dispatchTransaction_fromOutside[OF assms True, of P getPos] by simp
next
  case False
  let ?m = "StepMap_offset (getPos (outerView w) + 1)"
  let ?o = "state_tr (o_doc (outerView w))"
  note unf = dispatchTransaction_forward[OF assms False, of P getPos]
  show ?thesis
  proof (cases "forward_steps P ?m (tr_steps tr) ?o")
    case (Inl e)
    then show ?thesis using unf by simp
  next
    case (Inr outerTr)
    have "\<not> (\<exists>st\<in>set (tr_steps tr). step_map P ?m st = None)"
    proof
      assume "\<exists>st\<in>set (tr_steps tr). step_map P ?m st = None"
      then have "\<exists>e. forward_steps P ?m (tr_steps tr) ?o = Inl e"
        by (rule forward_steps_unmapped)
      then show False using Inr by simp
    qed
    then show ?thesis using unf Inr by simp
  qed
qed

text \<open>
  An insertion at position 0 under the framework instance that cannot map it: the error is
  raised, the inner document is \<open>2 * x = 1\<close>, the outer document is unchanged.
\<close>

theorem inner_applied_before_forwarding_witness:
  "innerView example_editing =
     Some \<lparr>view_id = 0, iv_state = \<lparr>doc = ''x = 1''\<rparr>, iv_focused = True,
           iv_received = [state_tr ''x = 1'']\<rparr>
   \<and> \<not> getMeta \<lparr>tr_before = ''x = 1'', tr_doc = ''2 * x = 1'',
         tr_steps = [ReplaceStep 0 0 ''2 * ''],
         tr_meta = (Map.empty :: string \<rightharpoonup> bool)\<rparr> ''fromOutside''
   \<and> step_map lossy_prose (StepMap_offset (bracket_pos (outerView example_editing) + 1))
        (ReplaceStep 0 0 ''2 * '') = None
   \<and> fst (dispatchTransaction lossy_prose bracket_pos
        \<lparr>tr_before = ''x = 1'', tr_doc = ''2 * x = 1'', tr_steps = [ReplaceStep 0 0 ''2 * ''],
         tr_meta = Map.empty\<rparr> example_editing) \<noteq> None
   \<and> snd (dispatchTransaction lossy_prose bracket_pos
        \<lparr>tr_before = ''x = 1'', tr_doc = ''2 * x = 1'', tr_steps = [ReplaceStep 0 0 ''2 * ''],
         tr_meta = Map.empty\<rparr> example_editing)
       = example_editing\<lparr>innerView :=
            Some \<lparr>view_id = 0, iv_state = \<lparr>doc = ''2 * x = 1''\<rparr>, iv_focused = True,
                  iv_received = [state_tr ''x = 1'']\<rparr>\<rparr>
   \<and> o_doc (outerView (snd (dispatchTransaction lossy_prose bracket_pos
        \<lparr>tr_before = ''x = 1'', tr_doc = ''2 * x = 1'', tr_steps = [ReplaceStep 0 0 ''2 * ''],
         tr_meta = Map.empty\<rparr> example_editing))) = ''ab[x = 1]cd''"
proof -
  let ?iv = "\<lparr>view_id = 0, iv_state = \<lparr>doc = ''x = 1''\<rparr>, iv_focused = True,
             iv_received = [state_tr ''x = 1'']\<rparr>"
  let ?tr = "\<lparr>tr_before = ''x = 1'', tr_doc = ''2 * x = 1'',
         tr_steps = [ReplaceStep 0 0 ''2 * ''],
         tr_meta = (Map.empty :: string \<rightharpoonup> bool)\<rparr>"
  let ?m = "StepMap_offset (bracket_pos (outerView example_editing) + 1)"
  let ?r = "dispatchTransaction lossy_prose bracket_pos ?tr example_editing"
  have h1: "innerView example_editing = Some ?iv" by (simp add: example_editing_eq)
  have h2: "tr_before ?tr = doc (iv_state ?iv)" by simp
  have h3: "\<not> getMeta ?tr ''fromOutside''" by (simp add: getMeta_def)
  have h5: "step_map lossy_prose ?m (ReplaceStep 0 0 ''2 * '') = None"
    by (simp add: lossy_prose_def)
  note t = inner_applied_before_forwarding[OF h1 h2, of lossy_prose bracket_pos]
  have ex: "\<exists>st\<in>set (tr_steps ?tr). step_map lossy_prose ?m st = None"
    using h5 by simp
  from t h3 ex have f: "fst ?r \<noteq> None" by blast
  with t have s: "snd ?r =
      example_editing\<lparr>innerView := Some (?iv\<lparr>iv_state := (iv_state ?iv)\<lparr>doc := tr_doc ?tr\<rparr>\<rparr>)\<rparr>"
    by blast
  then have s': "snd ?r = example_editing\<lparr>innerView :=
            Some \<lparr>view_id = 0, iv_state = \<lparr>doc = ''2 * x = 1''\<rparr>, iv_focused = True,
                  iv_received = [state_tr ''x = 1'']\<rparr>\<rparr>"
    by simp
  have o: "o_doc (outerView (snd ?r)) = ''ab[x = 1]cd''"
    unfolding s' by (simp add: example_editing_eq example_view_def)
  show ?thesis using h1 h3 h5 f s' o by simp
qed

end
